(* ===== verification/Prelude.thy ===== *)
theory Prelude
  imports Main "HOL-Library.Word"
begin

text \<open>
  Shared vocabulary of the locker development: the Go types the package uses
  (\<open>[]byte\<close>, \<open>time.Duration\<close>, \<open>time.Time\<close>, \<open>int\<close>), the parts of Go's
  \<open>time\<close> package the lock code calls (\<open>Sub\<close>, \<open>Add\<close>, \<open>Before\<close>, \<open>After\<close>), and
  the lemmas on 64-bit signed words that the component proofs share.
  A \<open>time.Duration\<close> is an \<open>int64\<close> count of nanoseconds and is kept at its width
  (\<open>64 word\<close>, read with \<open>sint\<close>): the lock code subtracts durations, and that
  subtraction wraps. A \<open>time.Time\<close> is read on the monotonic clock that
  \<open>time.Now\<close> attaches to it, as an unbounded count of nanoseconds (\<open>int\<close>).
\<close>

named_theorems go_simps \<open>evaluation rules of the Go runtime model\<close>

type_synonym byte = "8 word"
type_synonym bytes = "byte list"
type_synonym duration = "64 word"
type_synonym time = int

subsection \<open>Go's \<open>int64\<close> range\<close>

definition int64_min :: int where
  "int64_min = - (2 ^ 63)"

definition int64_max :: int where
  "int64_max = 2 ^ 63 - 1"

text \<open>\<open>time.Time.Sub\<close> saturates: a difference below or above the \<open>int64\<close> range is
  reported as the minimum or maximum \<open>Duration\<close>.\<close>

definition sat_int64 :: "int \<Rightarrow> int" where
  "sat_int64 x = (if x < int64_min then int64_min else if int64_max < x then int64_max else x)"

subsection \<open>The \<open>time\<close> package\<close>

text \<open>\<open>t.Sub(u)\<close> on two readings of the monotonic clock.\<close>

definition time_Sub :: "time \<Rightarrow> time \<Rightarrow> duration" where
  "time_Sub t u = word_of_int (sat_int64 (t - u))"

text \<open>\<open>t.Add(d)\<close>.\<close>

definition time_Add :: "time \<Rightarrow> duration \<Rightarrow> time" where
  "time_Add t d = t + sint d"

definition time_Before :: "time \<Rightarrow> time \<Rightarrow> bool" where
  "time_Before t u \<longleftrightarrow> t < u"

definition time_After :: "time \<Rightarrow> time \<Rightarrow> bool" where
  "time_After t u \<longleftrightarrow> u < t"

definition Millisecond :: duration where
  "Millisecond = 1000000"

declare time_Add_def [go_simps] time_Before_def [go_simps] time_After_def [go_simps]
  Millisecond_def [go_simps]

subsection \<open>Lemmas on 64-bit signed words\<close>

lemma int64_bounds [simp]: "int64_min = - 9223372036854775808" "int64_max = 9223372036854775807"
  by (simp_all add: int64_min_def int64_max_def)

lemma sint64_range: "- 9223372036854775808 \<le> sint (d :: duration) \<and> sint d \<le> 9223372036854775807"
proof -
  have "- (2 ^ (LENGTH(64) - 1)) \<le> sint d" by (rule sint_ge)
  moreover have "sint d < 2 ^ (LENGTH(64) - 1)" by (rule sint_lt)
  ultimately show ?thesis by simp
qed

lemma sint_word_of_int64:
  assumes "- 9223372036854775808 \<le> x" and "x \<le> 9223372036854775807"
  shows "sint (word_of_int x :: duration) = x"
proof -
  have "signed_take_bit 63 x = x"
    using assms by (simp add: signed_take_bit_int_eq_self)
  then show ?thesis by (simp add: sint_sbintrunc')
qed

lemma sat_int64_range: "- 9223372036854775808 \<le> sat_int64 x \<and> sat_int64 x \<le> 9223372036854775807"
  by (simp add: sat_int64_def)

lemma sat_int64_id [simp]:
  "- 9223372036854775808 \<le> x \<Longrightarrow> x \<le> 9223372036854775807 \<Longrightarrow> sat_int64 x = x"
  by (simp add: sat_int64_def)

lemma sint_time_Sub: "sint (time_Sub t u) = sat_int64 (t - u)"
  using sat_int64_range [of "t - u"] by (simp add: time_Sub_def sint_word_of_int64)

lemma word_one_le_iff: "(1 :: 'a::len word) \<le> t \<longleftrightarrow> t \<noteq> 0"
  by (simp add: word_le_nat_alt unat_gt_0 Suc_le_eq)

lemma word_max1_nonzero [simp]: "max 1 (t :: 'a::len word) \<noteq> 0"
  by (metis max.cobounded1 word_one_le_iff)

text \<open>A \<open>uint\<close> of \<open>2^63\<close> or more reads as a negative \<open>int\<close>.\<close>

lemma sint_neg_if_large:
  assumes "2 ^ 63 \<le> unat (t :: 64 word)"
  shows "sint t < 0"
proof -
  have lt: "unat t < 2 ^ 64" using unsigned_less [of t, where ?'a = nat] by simp
  have "1 \<le> unat t div 2 ^ 63" using assms by (simp add: le_div_geq div_greater_zero_iff)
  moreover have "unat t div 2 ^ 63 < 2" using lt by (simp add: div_less_iff_less_mult)
  ultimately have "unat t div 2 ^ 63 = 1" by simp
  then have "bit (unat t) 63" by (simp add: bit_iff_odd)
  then have "bit t 63" by (simp add: bit_unsigned_iff)
  then show ?thesis using bit_last_iff [of t] by simp
qed
text \<open>Subtraction of two durations keeps its mathematical value exactly when that
  value is in the \<open>int64\<close> range; otherwise it wraps.\<close>

lemma sint_duration_diff:
  assumes "- 9223372036854775808 \<le> sint a - sint b" and "sint a - sint b \<le> 9223372036854775807"
  shows "sint (a - b :: duration) = sint a - sint b"
proof -
  have "sint (a - b) = signed_take_bit 63 (sint a - sint b)"
    by (simp add: sint_word_diff)
  also have "\<dots> = sint a - sint b"
    using assms by (simp add: signed_take_bit_int_eq_self)
  finally show ?thesis .
qed

text \<open>Any \<open>int\<close> converted to a \<open>Duration\<close> reads back reduced into the \<open>int64\<close>
  range, and so does the duration \<open>ttl - t.Sub(u)\<close> of \<open>Mutex.Lock\<close> on every input.\<close>

lemma sint_wrap64: "sint (word_of_int x :: duration) = (x + 2 ^ 63) mod 2 ^ 64 - 2 ^ 63"
  using int_word_sint [where 'a = 64, of x] by simp

lemma sint_ttl_minus_Sub:
  "sint (ttl - time_Sub n s) = (sint ttl - sat_int64 (n - s) + 2 ^ 63) mod 2 ^ 64 - 2 ^ 63"
proof -
  have "sint (ttl - time_Sub n s) = signed_take_bit 63 (sint ttl - sat_int64 (n - s))"
    by (simp add: sint_word_diff sint_time_Sub)
  then show ?thesis by (simp add: signed_take_bit_eq_take_bit_shift take_bit_eq_mod)
qed

text \<open>The adjusted expiry of \<open>Mutex.Lock\<close>, \<open>now.Add(ttl - now.Sub(start))\<close>: for
  a non-negative TTL and a clock that did not run backwards it is exactly
  \<open>start + ttl\<close>, and it lies after \<open>now\<close> exactly when \<open>now\<close> is before that instant.
  Both hold also when \<open>now - start\<close> saturates.\<close>

lemma adjusted_expiry:
  assumes "s \<le> n" and "0 \<le> sint ttl"
  shows "time_Before n (time_Add n (ttl - time_Sub n s)) \<longleftrightarrow> n < s + sint ttl"
    and "n < s + sint ttl \<Longrightarrow> time_Add n (ttl - time_Sub n s) = s + sint ttl"
proof -
  have r: "- 9223372036854775808 \<le> sint ttl \<and> sint ttl \<le> 9223372036854775807"
    by (rule sint64_range)
  have "(time_Before n (time_Add n (ttl - time_Sub n s)) \<longleftrightarrow> n < s + sint ttl)
        \<and> (n < s + sint ttl \<longrightarrow> time_Add n (ttl - time_Sub n s) = s + sint ttl)"
  proof (cases "n - s \<le> 9223372036854775807")
    case True
    then have sub: "sint (time_Sub n s) = n - s"
      using assms(1) by (simp add: sint_time_Sub)
    then have "sint (ttl - time_Sub n s) = sint ttl - (n - s)"
      using sint_duration_diff [of ttl "time_Sub n s"] sub True assms r by simp
    then show ?thesis by (simp add: time_Add_def time_Before_def add.commute)
  next
    case False
    then have sub: "sint (time_Sub n s) = 9223372036854775807"
      by (simp add: sint_time_Sub sat_int64_def)
    then have "sint (ttl - time_Sub n s) = sint ttl - 9223372036854775807"
      using sint_duration_diff [of ttl "time_Sub n s"] sub assms r by simp
    then show ?thesis using False r by (simp add: time_Add_def time_Before_def)
  qed
  then show "time_Before n (time_Add n (ttl - time_Sub n s)) \<longleftrightarrow> n < s + sint ttl"
    and "n < s + sint ttl \<Longrightarrow> time_Add n (ttl - time_Sub n s) = s + sint ttl"
    by blast+
qed
end
