(* ===== verification/Errors.thy ===== *)
theory Errors
  imports Prelude
begin

text \<open>
  The error values of the package (\<open>src/errors.go\<close>): the four sentinel errors,
  the three storage errors that \<open>Mutex.Lock\<close> and \<open>Mutex.unlock\<close> wrap with
  \<open>fmt.Errorf("...: %w", err)\<close> (\<open>src/mutex.go\<close>, lines 76, 113 and 118), which carry
  the key and the driver's own error of type \<open>'e\<close>, and the Go runtime panics the
  package can raise, kept as values so that every exit of the code is a branch of
  the model.
\<close>

datatype 'e lock_error =
    ErrAlreadyTaken
  | ErrAlreadyUnlocked
  | ErrTryUnlockAnother
  | ErrExpired
  | ErrStoreKey string bytes 'e \<comment> \<open>could not store key=%s with value=%v: %w\<close>
  | ErrGetRecord string 'e \<comment> \<open>could not get lock record by key=%s: %w\<close>
  | ErrDeleteRecord string 'e \<comment> \<open>could not delete lock record by key=%s: %w\<close>
  | Panic string

text \<open>How \<open>fmt\<close> prints a \<open>[]byte\<close> with the verb \<open>%v\<close>: the bytes in decimal,
  separated by spaces, between brackets.\<close>

fun fmt_uint :: "nat \<Rightarrow> string" where
  "fmt_uint n = (if n < 10 then [''0123456789'' ! n] else fmt_uint (n div 10) @ [''0123456789'' ! (n mod 10)])"

fun fmt_join :: "string list \<Rightarrow> string" where
  "fmt_join [] = []"
| "fmt_join [x] = x"
| "fmt_join (x # xs) = x @ '' '' @ fmt_join xs"

definition fmt_bytes :: "bytes \<Rightarrow> string" where
  "fmt_bytes b = ''['' @ fmt_join (map (\<lambda>x. fmt_uint (unat x)) b) @ '']''"

text \<open>The message each error prints (\<open>err.Error()\<close>); a wrapped error prints its
  prefix followed by the driver's message, given as \<open>msg\<close>.\<close>

fun lock_error_msg :: "('e \<Rightarrow> string) \<Rightarrow> 'e lock_error \<Rightarrow> string" where
  "lock_error_msg msg ErrAlreadyTaken = ''the lock key is already in use''"
| "lock_error_msg msg ErrAlreadyUnlocked = ''the key was already expired or unlocked''"
| "lock_error_msg msg ErrTryUnlockAnother =
     ''could not unlock key which was locked by another process''"
| "lock_error_msg msg ErrExpired = ''lock is expired''"
| "lock_error_msg msg (ErrStoreKey k v e) = ''could not store key='' @ k @ '' with value='' @ fmt_bytes v @ '': '' @ msg e"
| "lock_error_msg msg (ErrGetRecord k e) = ''could not get lock record by key='' @ k @ '': '' @ msg e"
| "lock_error_msg msg (ErrDeleteRecord k e) = ''could not delete lock record by key='' @ k @ '': '' @ msg e"
| "lock_error_msg msg (Panic s) = ''panic: '' @ s"

text \<open>\<open>errors.Is(err, target)\<close> for a driver error \<open>target\<close>: true exactly for the
  wrapped storage errors that carry it (\<open>%w\<close> keeps the chain).\<close>

fun wraps_driver_error :: "'e lock_error \<Rightarrow> 'e \<Rightarrow> bool" where
  "wraps_driver_error (ErrStoreKey _ _ e) t = (e = t)"
| "wraps_driver_error (ErrGetRecord _ e) t = (e = t)"
| "wraps_driver_error (ErrDeleteRecord _ e) t = (e = t)"
| "wraps_driver_error _ t = False"

end
