(* ===== verification/Mutex.thy ===== *)
theory Mutex
  imports Errors
begin

text \<open>
  The lock manager of \<open>src/mutex.go\<close>. The storage driver (the Go interface
  \<open>mutexStorageDriver\<close>) and the clock (\<open>time.Now\<close>, \<open>time.Sleep\<close>) are records of
  functions over an abstract world \<open>'w\<close>: each call takes the world and returns its
  result with the world after it, so the order of the calls the code makes is
  explicit and any implementation of the interface can be plugged in. A Go driver
  call returns a tuple whose last component is the error; the model keeps the tuple
  and the error as an \<open>option\<close>. \<open>Mutex.Lock\<close> is the loop \<open>Lock_loop\<close> around one
  attempt \<open>lock_attempt\<close>; the release closure it returns is \<open>unlock\<close> applied to the
  handle, which the caller threads through explicitly because Go mutates it in place.
\<close>

section \<open>Types\<close>

record ('w, 'e) mutexStorageDriver =
  drv_Set :: "string \<Rightarrow> bytes \<Rightarrow> duration \<Rightarrow> 'w \<Rightarrow> (int \<times> bool \<times> 'e option) \<times> 'w"
  drv_Get :: "string \<Rightarrow> 'w \<Rightarrow> (int \<times> bytes \<times> 'e option) \<times> 'w"
  drv_Delete :: "string \<Rightarrow> 'w \<Rightarrow> (int \<times> 'e option) \<times> 'w"

record 'w go_clock =
  time_Now :: "'w \<Rightarrow> time"
  time_Sleep :: "duration \<Rightarrow> 'w \<Rightarrow> 'w"

record ('w, 'e) Mutex =
  storage :: "('w, 'e) mutexStorageDriver option" \<comment> \<open>\<open>None\<close> is Go's nil interface\<close>
  tries :: "64 word" \<comment> \<open>Go \<open>uint\<close>\<close>
  genValueFunc :: "'w \<Rightarrow> bytes \<times> 'w"
  delayFunc :: "int \<Rightarrow> 'w \<Rightarrow> duration \<times> 'w"

text \<open>The handle \<open>locked\<close>; its field \<open>value\<close> is called \<open>lvalue\<close> here.\<close>

record locked =
  key :: string
  lvalue :: bytes
  until :: time
  unlocked :: bool

text \<open>What one iteration of the loop in \<open>Mutex.Lock\<close> ends with: \<open>Retry\<close> when the
  key was already present (\<open>ok\<close> false, no error), \<open>Done r\<close> when the function returns.\<close>

datatype 'e attempt = Retry | Done "'e lock_error + locked"

definition nil_deref :: string where
  "nil_deref = ''runtime error: invalid memory address or nil pointer dereference''"

section \<open>Mutex.Lock\<close>

text \<open>One attempt, lines 72--94: read the clock, \<open>Set\<close> the key, and on success
  shrink the TTL by the time the call took.\<close>

definition lock_attempt ::
  "'w go_clock \<Rightarrow> ('w, 'e) mutexStorageDriver \<Rightarrow> string \<Rightarrow> duration \<Rightarrow> bytes \<Rightarrow> 'w
     \<Rightarrow> 'e attempt \<times> 'w" where
  "lock_attempt clk drv k ttl val w =
     (let start = time_Now clk w;
          ((_, ok, err), w1) = drv_Set drv k val ttl w
      in case err of
           Some e \<Rightarrow> (Done (Inl (ErrStoreKey k val e)), w1)
         | None \<Rightarrow>
             if ok then
               (let now = time_Now clk w1;
                    u = time_Add now (ttl - time_Sub now start)
                in if time_Before now u
                   then (Done (Inr \<lparr>key = k, lvalue = val, until = u, unlocked = False\<rparr>), w1)
                   else (Done (Inl ErrExpired), w1))
             else (Retry, w1))"

text \<open>The loop, lines 67--71 and 95--97: \<open>for i := 0; i < int(m.tries); i++\<close>.
  \<open>int(m.tries)\<close> reinterprets the \<open>uint\<close> as a signed \<open>int\<close> (\<open>sint\<close>). Every
  iteration but the first sleeps for \<open>m.delayFunc(i)\<close>; calling \<open>Set\<close> on a nil driver
  panics.\<close>

function Lock_loop ::
  "'w go_clock \<Rightarrow> ('w, 'e) Mutex \<Rightarrow> string \<Rightarrow> duration \<Rightarrow> bytes \<Rightarrow> int \<Rightarrow> 'w
     \<Rightarrow> ('e lock_error + locked) \<times> 'w" where
  "Lock_loop clk m k ttl val i w =
     (if i < sint (tries m) then
        (let w1 = (if i \<noteq> 0 then (let (d, w0) = delayFunc m i w in time_Sleep clk d w0) else w)
         in case storage m of
              None \<Rightarrow> (Inl (Panic nil_deref), w1)
            | Some drv \<Rightarrow>
                (case lock_attempt clk drv k ttl val w1 of
                   (Retry, w2) \<Rightarrow> Lock_loop clk m k ttl val (i + 1) w2
                 | (Done r, w2) \<Rightarrow> (r, w2)))
      else (Inl ErrAlreadyTaken, w))"
  by pat_completeness auto
termination
  by (relation "measure (\<lambda>(clk, m, k, ttl, val, i, w). nat (sint (tries m) - i))") auto

declare Lock_loop.simps [simp del]

text \<open>\<open>Mutex.Lock\<close>, lines 65--98: one token for all attempts.\<close>

definition Lock ::
  "'w go_clock \<Rightarrow> ('w, 'e) Mutex \<Rightarrow> string \<Rightarrow> duration \<Rightarrow> 'w \<Rightarrow> ('e lock_error + locked) \<times> 'w" where
  "Lock clk m k ttl w = (let (val, w1) = genValueFunc m w in Lock_loop clk m k ttl val 0 w1)"

section \<open>Mutex.unlock\<close>

text \<open>Lines 102--125. The handle is returned with the result, as Go updates
  \<open>l.unlocked\<close> through the pointer.\<close>

definition unlock ::
  "'w go_clock \<Rightarrow> ('w, 'e) Mutex \<Rightarrow> locked \<Rightarrow> 'w \<Rightarrow> ('e lock_error + unit) \<times> locked \<times> 'w" where
  "unlock clk m l w =
     (if unlocked l then (Inl ErrAlreadyUnlocked, l, w)
      else if time_After (time_Now clk w) (until l) then (Inl ErrExpired, l, w)
      else case storage m of
        None \<Rightarrow> (Inl (Panic nil_deref), l, w)
      | Some drv \<Rightarrow>
          (let ((_, res, err), w1) = drv_Get drv (key l) w
           in case err of
                Some e \<Rightarrow> (Inl (ErrGetRecord (key l) e), l, w1)
              | None \<Rightarrow>
                  if lvalue l = res then
                    (let ((_, err2), w2) = drv_Delete drv (key l) w1
                     in case err2 of
                          Some e \<Rightarrow> (Inl (ErrDeleteRecord (key l) e), l, w2)
                        | None \<Rightarrow> (Inr (), l\<lparr>unlocked := True\<rparr>, w2))
                  else (Inl ErrTryUnlockAnother, l, w1)))"

section \<open>Lemmas on Mutex.Lock\<close>

text \<open>The three outcomes of one attempt, by what \<open>Set\<close> answered.\<close>

lemma lock_attempt_store_error:
  "drv_Set drv k val ttl w = ((x, ok, Some e), w1) \<Longrightarrow>
   lock_attempt clk drv k ttl val w = (Done (Inl (ErrStoreKey k val e)), w1)"
  by (simp add: lock_attempt_def)

lemma lock_attempt_taken:
  "drv_Set drv k val ttl w = ((x, False, None), w1) \<Longrightarrow> lock_attempt clk drv k ttl val w = (Retry, w1)"
  by (simp add: lock_attempt_def)

text \<open>C14: When \<open>Set\<close> creates the record and the clock did not run backwards over the
  call, the attempt returns a handle exactly when the call took less than the TTL, and the
  handle then expires exactly TTL after the instant the attempt started; otherwise it fails
  with \<open>ErrExpired\<close> although the record was created.\<close>

lemma lock_attempt_created:
  assumes "drv_Set drv k val ttl w = ((x, True, None), w1)"
    and "time_Now clk w \<le> time_Now clk w1" and "0 \<le> sint ttl"
  shows "lock_attempt clk drv k ttl val w =
    (if time_Now clk w1 < time_Now clk w + sint ttl
     then Done (Inr \<lparr>key = k, lvalue = val, until = time_Now clk w + sint ttl, unlocked = False\<rparr>)
     else Done (Inl ErrExpired), w1)"
  using assms adjusted_expiry [OF assms(2,3)] by (simp add: lock_attempt_def)

text \<open>C8: A TTL of \<open>math.MinInt64\<close>, for every driver and clock: when \<open>Set\<close> creates the
  record (with that negative TTL) and the call took any time at all, \<open>ttl - now.Sub(start)\<close>
  wraps around to \<open>2^63\<close> minus the latency (saturated at \<open>MaxInt64\<close>), and the attempt
  returns a handle valid for up to 292 years instead of failing with \<open>ErrExpired\<close>.\<close>

theorem lock_attempt_min_ttl:
  assumes "drv_Set drv k val (word_of_int int64_min) w = ((x, True, None), w1)"
    and "time_Now clk w < time_Now clk w1"
  shows "lock_attempt clk drv k (word_of_int int64_min) val w =
    (Done (Inr \<lparr>key = k, lvalue = val,
                 until = time_Now clk w1 + (2 ^ 63 - min (time_Now clk w1 - time_Now clk w) int64_max),
                 unlocked = False\<rparr>), w1)"
proof -
  define d where "d = min (time_Now clk w1 - time_Now clk w) int64_max"
  have d: "0 < d" "d \<le> int64_max" "sat_int64 (time_Now clk w1 - time_Now clk w) = d"
    using assms(2) by (auto simp: d_def sat_int64_def)
  have m: "(- (2 ^ 63) - d + 2 ^ 63) mod (2 ^ 64 :: int) = 2 ^ 64 - d"
  proof -
    have "(- d) mod (2 ^ 64 :: int) = (2 ^ 64 - d) mod 2 ^ 64" by (simp add: mod_diff_left_eq [symmetric])
    also have "\<dots> = 2 ^ 64 - d" using d(1,2) by (intro mod_pos_pos_trivial) simp_all
    finally show ?thesis by simp
  qed
  have "sint (word_of_int int64_min - time_Sub (time_Now clk w1) (time_Now clk w)) = 2 ^ 63 - d"
    using sint_ttl_minus_Sub [of "word_of_int int64_min"] d(3) m by (simp add: int64_min_def)
  then show ?thesis
    using assms d(1,2) by (simp add: lock_attempt_def time_Add_def time_Before_def Let_def d_def)
qed

text \<open>What a handle returned by one attempt is made of.\<close>

lemma lock_attempt_Done_Inr:
  assumes "lock_attempt clk drv k ttl val w = (Done (Inr l), w1)"
  shows "key l = k \<and> lvalue l = val \<and> \<not> unlocked l \<and> time_Now clk w1 < until l
    \<and> (\<exists>x. drv_Set drv k val ttl w = ((x, True, None), w1))
    \<and> until l = time_Add (time_Now clk w1) (ttl - time_Sub (time_Now clk w1) (time_Now clk w))"
  using assms
  by (auto simp: lock_attempt_def time_Before_def Let_def split: prod.splits option.splits if_splits)

text \<open>One unfolding of the loop while attempts remain; used to run it on concrete
  inputs, where the unguarded equation would unfold forever.\<close>

lemma Lock_loop_next:
  "i < sint (tries m) \<Longrightarrow> Lock_loop clk m k ttl val i w =
        (let w1 = (if i \<noteq> 0 then (let (d, w0) = delayFunc m i w in time_Sleep clk d w0) else w)
         in case storage m of
              None \<Rightarrow> (Inl (Panic nil_deref), w1)
            | Some drv \<Rightarrow>
                (case lock_attempt clk drv k ttl val w1 of
                   (Retry, w2) \<Rightarrow> Lock_loop clk m k ttl val (i + 1) w2
                 | (Done r, w2) \<Rightarrow> (r, w2)))"
  by (simp add: Lock_loop.simps [of clk m k ttl val i w])

text \<open>A handle returned by the loop comes from one attempt with the same key, token
  and TTL, and the loop returns with the world that attempt left.\<close>

lemma Lock_loop_Inr:
  assumes "Lock_loop clk m k ttl val i w = (Inr l, w')" and "storage m = Some drv"
  shows "\<exists>w1. lock_attempt clk drv k ttl val w1 = (Done (Inr l), w')"
  using assms
proof (induction clk m k ttl val i w rule: Lock_loop.induct)
  case (1 clk m k ttl val i w)
  let ?w1 = "if i \<noteq> 0 then (let (d, w0) = delayFunc m i w in time_Sleep clk d w0) else w"
  have lt: "i < sint (tries m)"
    using "1.prems" by (cases "i < sint (tries m)") (simp_all add: Lock_loop.simps [of clk m k ttl val i w])
  show ?case
  proof (cases "lock_attempt clk drv k ttl val ?w1")
    case (Pair a w2)
    show ?thesis
    proof (cases a)
      case Retry
      with Pair lt "1.prems" have "Lock_loop clk m k ttl val (i + 1) w2 = (Inr l, w')"
        by (simp add: Lock_loop.simps [of clk m k ttl val i w])
      with "1.IH" [OF lt refl "1.prems"(2) Pair [symmetric] Retry] "1.prems"(2) show ?thesis
        by blast
    next
      case (Done r)
      with Pair lt "1.prems" show ?thesis
        by (auto simp: Lock_loop.simps [of clk m k ttl val i w])
    qed
  qed
qed

lemma Lock_loop_stop:
  "\<not> i < sint (tries m) \<Longrightarrow> Lock_loop clk m k ttl val i w = (Inl ErrAlreadyTaken, w)"
  by (simp add: Lock_loop.simps [of clk m k ttl val i w])

text \<open>When \<open>int(m.tries)\<close> is not positive the loop body never runs.\<close>

lemma Lock_no_attempt:
  "sint (tries m) \<le> 0 \<Longrightarrow> Lock clk m k ttl w = (Inl ErrAlreadyTaken, snd (genValueFunc m w))"
  by (cases "genValueFunc m w") (simp add: Lock_def Lock_loop_stop)

lemma Lock_Inr_attempt:
  assumes "Lock clk m k ttl w = (Inr l, w')" and "storage m = Some drv"
  shows "\<exists>w1. lock_attempt clk drv k ttl (fst (genValueFunc m w)) w1 = (Done (Inr l), w')"
  using assms Lock_loop_Inr [of clk m k ttl "fst (genValueFunc m w)" 0 "snd (genValueFunc m w)"]
  by (cases "genValueFunc m w") (simp add: Lock_def)

text \<open>C13: A handle returned by \<open>Mutex.Lock\<close> is bound to the requested key and to the one
  token generated at the start of the call, is not released, and has not expired when
  \<open>Lock\<close> returns.\<close>

theorem Lock_handle_active:
  assumes "Lock clk m k ttl w = (Inr l, w')" and "storage m = Some drv"
  shows "key l = k \<and> lvalue l = fst (genValueFunc m w) \<and> \<not> unlocked l \<and> time_Now clk w' < until l"
  using Lock_Inr_attempt [OF assms] lock_attempt_Done_Inr by metis

text \<open>The expiry of a handle, measured from the successful \<open>Set\<close>; shared by the
  statements about one driver and about the in-memory store.\<close>

lemma Lock_Set_expiry:
  assumes "Lock clk m k ttl w = (Inr l, w')" and "storage m = Some drv" and "0 \<le> sint ttl"
    and "\<forall>v u. time_Now clk u \<le> time_Now clk (snd (drv_Set drv k v ttl u))"
  shows "\<exists>u x. drv_Set drv k (lvalue l) ttl u = ((x, True, None), w') \<and> until l = time_Now clk u + sint ttl"
proof -
  obtain u where att: "lock_attempt clk drv k ttl (fst (genValueFunc m w)) u = (Done (Inr l), w')"
    using Lock_Inr_attempt [OF assms(1,2)] by blast
  then obtain x where set: "drv_Set drv k (lvalue l) ttl u = ((x, True, None), w')"
    and act: "time_Now clk w' < until l"
    and u: "until l = time_Add (time_Now clk w') (ttl - time_Sub (time_Now clk w') (time_Now clk u))"
    using lock_attempt_Done_Inr [OF att] by auto
  have mono: "time_Now clk u \<le> time_Now clk w'"
    using spec [OF spec [OF assms(4), of "lvalue l"], of u] set by simp
  have "time_Now clk w' < time_Now clk u + sint ttl"
    using adjusted_expiry(1) [OF mono assms(3)] act u by (simp add: time_Before_def)
  then have "until l = time_Now clk u + sint ttl"
    using adjusted_expiry(2) [OF mono assms(3)] u by simp
  with set show ?thesis by blast
qed

text \<open>C4: For a non-negative TTL, and a driver whose \<open>Set\<close> never runs the clock backwards,
  the handle's expiry is exactly TTL after the instant the successful \<open>Set\<close> was
  issued, and \<open>Lock\<close> returns with the world that \<open>Set\<close> left: the expiry never exceeds
  TTL measured from the moment the store accepted the write.\<close>

theorem Lock_expiry:
  assumes "Lock clk m k ttl w = (Inr l, w')" and "storage m = Some drv" and "0 \<le> sint ttl"
    and "\<forall>v u. time_Now clk u \<le> time_Now clk (snd (drv_Set drv k v ttl u))"
  shows "\<exists>u x. drv_Set drv k (lvalue l) ttl u = ((x, True, None), w') \<and> until l = time_Now clk u + sint ttl"
  using Lock_Set_expiry [OF assms] .

text \<open>Contention: while every \<open>Set\<close> finds the key taken, the loop runs out of
  attempts.\<close>

lemma Lock_loop_contention:
  assumes "storage m = Some drv" and "\<forall>v u. \<exists>x. fst (drv_Set drv k v ttl u) = (x, False, None)"
  shows "fst (Lock_loop clk m k ttl val i w) = Inl ErrAlreadyTaken"
  using assms
proof (induction clk m k ttl val i w rule: Lock_loop.induct)
  case (1 clk m k ttl val i w)
  show ?case
  proof (cases "i < sint (tries m)")
    case False
    then show ?thesis by (simp add: Lock_loop_stop)
  next
    case True
    define w1 where "w1 = (if i \<noteq> 0 then (let (d, w0) = delayFunc m i w in time_Sleep clk d w0) else w)"
    have "\<exists>x. fst (drv_Set drv k val ttl w1) = (x, False, None)"
      using "1.prems"(2) by simp
    then obtain x where "fst (drv_Set drv k val ttl w1) = (x, False, None)" ..
    then obtain w2 where "drv_Set drv k val ttl w1 = ((x, False, None), w2)"
      by (cases "drv_Set drv k val ttl w1") simp
    then have att: "lock_attempt clk drv k ttl val w1 = (Retry, w2)"
      by (rule lock_attempt_taken)
    then have "Lock_loop clk m k ttl val i w = Lock_loop clk m k ttl val (i + 1) w2"
      using True "1.prems"(1) by (simp add: Lock_loop.simps [of clk m k ttl val i w] w1_def)
    also have "fst \<dots> = Inl ErrAlreadyTaken"
      by (rule "1.IH" [OF True w1_def "1.prems"(1) att [symmetric] refl "1.prems"(1) "1.prems"(2)])
    finally show ?thesis .
  qed
qed

text \<open>If the store reports the key as present on every attempt, \<open>Mutex.Lock\<close> fails
  with \<open>ErrAlreadyTaken\<close>.\<close>

theorem Lock_contention:
  assumes "storage m = Some drv" and "\<forall>v u. \<exists>x. fst (drv_Set drv k v ttl u) = (x, False, None)"
  shows "fst (Lock clk m k ttl w) = Inl ErrAlreadyTaken"
  by (cases "genValueFunc m w") (simp add: Lock_def Lock_loop_contention [OF assms])

text \<open>C17: A storage error aborts \<open>Mutex.Lock\<close> at once: when the first \<open>Set\<close> fails,
  \<open>Lock\<close> returns the wrapped error \<open>ErrStoreKey\<close> with the key, the token and the
  driver's error, in the world that \<open>Set\<close> left, so no further attempt is made.\<close>

theorem Lock_store_error:
  assumes "storage m = Some drv" and "0 < sint (tries m)"
    and "drv_Set drv k (fst (genValueFunc m w)) ttl (snd (genValueFunc m w)) = ((x, ok, Some e), w1)"
  shows "Lock clk m k ttl w = (Inl (ErrStoreKey k (fst (genValueFunc m w)) e), w1)"
  using assms lock_attempt_store_error [OF assms(3), of clk]
  by (cases "genValueFunc m w") (simp add: Lock_def Lock_loop_next)

text \<open>Whatever one attempt returns, it returns the world its \<open>Set\<close> left.\<close>

lemma lock_attempt_world: "snd (lock_attempt clk drv k ttl val w) = snd (drv_Set drv k val ttl w)"
  by (simp add: lock_attempt_def Let_def split: prod.splits option.splits)

lemma Lock_loop_body_world:
  assumes "\<forall>d u. cnt (time_Sleep clk d u) = cnt u" and "\<forall>j u. cnt (snd (delayFunc m j u)) = cnt u"
  shows "cnt (if i \<noteq> 0 then (let (d, w0) = delayFunc m i w in time_Sleep clk d w0) else w) = cnt w"
proof (cases "delayFunc m i w")
  case (Pair d w0)
  have "cnt w0 = cnt w" using assms(2) Pair by (metis snd_conv)
  with assms(1) Pair show ?thesis by simp
qed

text \<open>Counting \<open>Set\<close> calls: \<open>cnt\<close> is any measure of the world that each \<open>Set\<close>
  increases by one and that sleeping and drawing a delay leave alone.\<close>

lemma Lock_loop_set_calls:
  assumes "storage m = Some drv" and set: "\<forall>v u. cnt (snd (drv_Set drv k v ttl u)) = Suc (cnt u)"
    and sleep: "\<forall>d u. cnt (time_Sleep clk d u) = cnt u"
    and delay: "\<forall>j u. cnt (snd (delayFunc m j u)) = cnt u"
  shows "cnt (snd (Lock_loop clk m k ttl val i w)) \<le> cnt w + nat (sint (tries m) - i)
    \<and> ((\<forall>v u. \<exists>x. fst (drv_Set drv k v ttl u) = (x, False, None))
        \<longrightarrow> cnt (snd (Lock_loop clk m k ttl val i w)) = cnt w + nat (sint (tries m) - i))"
  using assms
proof (induction clk m k ttl val i w rule: Lock_loop.induct)
  case (1 clk m k ttl val i w)
  show ?case
  proof (cases "i < sint (tries m)")
    case False
    then show ?thesis by (simp add: Lock_loop_stop)
  next
    case True
    define w1 where "w1 = (if i \<noteq> 0 then (let (d, w0) = delayFunc m i w in time_Sleep clk d w0) else w)"
    have c1: "cnt w1 = cnt w"
      unfolding w1_def using Lock_loop_body_world [OF "1.prems"(3,4)] .
    obtain a w2 where att: "lock_attempt clk drv k ttl val w1 = (a, w2)"
      by (cases "lock_attempt clk drv k ttl val w1")
    have c2: "cnt w2 = Suc (cnt w)"
      using lock_attempt_world [of clk drv k ttl val w1] att "1.prems"(2) c1 by simp
    show ?thesis
    proof (cases a)
      case Retry
      then have eq: "Lock_loop clk m k ttl val i w = Lock_loop clk m k ttl val (i + 1) w2"
        using True "1.prems"(1) att by (simp add: Lock_loop.simps [of clk m k ttl val i w] w1_def)
      have IH: "cnt (snd (Lock_loop clk m k ttl val (i + 1) w2)) \<le> cnt w2 + nat (sint (tries m) - (i + 1))
        \<and> ((\<forall>v u. \<exists>x. fst (drv_Set drv k v ttl u) = (x, False, None))
           \<longrightarrow> cnt (snd (Lock_loop clk m k ttl val (i + 1) w2)) = cnt w2 + nat (sint (tries m) - (i + 1)))"
        using "1.IH" [OF True w1_def "1.prems"(1) att [symmetric] Retry] "1.prems" Retry
        by simp
      have n: "nat (sint (tries m) - i) = Suc (nat (sint (tries m) - (i + 1)))"
        using True by simp
      show ?thesis using IH c2 n by (simp add: eq)
    next
      case (Done r)
      then have eq: "Lock_loop clk m k ttl val i w = (r, w2)"
        using True "1.prems"(1) att by (simp add: Lock_loop.simps [of clk m k ttl val i w] w1_def)
      have nc: "\<not> (\<forall>v u. \<exists>x. fst (drv_Set drv k v ttl u) = (x, False, None))"
      proof
        assume "\<forall>v u. \<exists>x. fst (drv_Set drv k v ttl u) = (x, False, None)"
        then obtain x where "fst (drv_Set drv k val ttl w1) = (x, False, None)" by blast
        then have "drv_Set drv k val ttl w1 = ((x, False, None), w2)"
          using lock_attempt_world [of clk drv k ttl val w1] att by (metis prod.collapse snd_conv)
        with att Done show False by (simp add: lock_attempt_taken)
      qed
      show ?thesis
      proof (intro conjI impI)
        show "cnt (snd (Lock_loop clk m k ttl val i w)) \<le> cnt w + nat (sint (tries m) - i)"
          using c2 True by (simp add: eq)
        assume "\<forall>v u. \<exists>x. fst (drv_Set drv k v ttl u) = (x, False, None)"
        with nc show "cnt (snd (Lock_loop clk m k ttl val i w)) = cnt w + nat (sint (tries m) - i)"
          by blast
      qed
    qed
  qed
qed

text \<open>C15: \<open>Mutex.Lock\<close> calls \<open>Set\<close> at most \<open>int(m.tries)\<close> times (none when it is not
  positive): for any measure of the world that each \<open>Set\<close> increases by one and that
  sleeping, drawing a delay and generating the token leave alone.\<close>

theorem Lock_set_calls:
  assumes "storage m = Some drv" and "\<forall>v u. cnt (snd (drv_Set drv k v ttl u)) = Suc (cnt u)"
    and "\<forall>d u. cnt (time_Sleep clk d u) = cnt u"
    and "\<forall>j u. cnt (snd (delayFunc m j u)) = cnt u" and "\<forall>u. cnt (snd (genValueFunc m u)) = cnt u"
  shows "cnt (snd (Lock clk m k ttl w)) \<le> cnt w + nat (sint (tries m))"
proof -
  obtain val w0 where g: "genValueFunc m w = (val, w0)" by (cases "genValueFunc m w")
  have "cnt w0 = cnt w" using assms(5) g by (metis snd_conv)
  then show ?thesis
    using Lock_loop_set_calls [OF assms(1-4), where val = val and i = 0 and w = w0] g
    by (simp add: Lock_def)
qed

text \<open>C16: Under contention, when every \<open>Set\<close> reports the key taken, \<open>Mutex.Lock\<close> makes
  exactly \<open>int(m.tries)\<close> calls to \<open>Set\<close> (none when it is not positive) and then fails
  with \<open>ErrAlreadyTaken\<close>.\<close>

theorem Lock_contention_set_calls:
  assumes "storage m = Some drv" and "\<forall>v u. cnt (snd (drv_Set drv k v ttl u)) = Suc (cnt u)"
    and "\<forall>d u. cnt (time_Sleep clk d u) = cnt u"
    and "\<forall>j u. cnt (snd (delayFunc m j u)) = cnt u" and "\<forall>u. cnt (snd (genValueFunc m u)) = cnt u"
    and "\<forall>v u. \<exists>x. fst (drv_Set drv k v ttl u) = (x, False, None)"
  shows "fst (Lock clk m k ttl w) = Inl ErrAlreadyTaken \<and> cnt (snd (Lock clk m k ttl w)) = cnt w + nat (sint (tries m))"
proof -
  obtain val w0 where g: "genValueFunc m w = (val, w0)" by (cases "genValueFunc m w")
  have "cnt w0 = cnt w" using assms(5) g by (metis snd_conv)
  then show ?thesis
    using Lock_loop_set_calls [OF assms(1-4), where val = val and i = 0 and w = w0]
      Lock_loop_contention [OF assms(1,6), where val = val and i = 0 and w = w0 and clk = clk] assms(6) g
    by (simp add: Lock_def)
qed

section \<open>Lemmas on Mutex.unlock\<close>

text \<open>The handle comes back unchanged except on success, which sets \<open>unlocked\<close>.\<close>

lemma unlock_handle:
  assumes "unlock clk m l w = (r, l', w')"
  shows "l' = (if r = Inr () then l\<lparr>unlocked := True\<rparr> else l)"
  using assms
  by (auto simp: unlock_def Let_def split: if_splits option.splits prod.splits)

text \<open>C19: The handle's \<open>unlocked\<close> flag goes from false to true exactly when a call
  succeeds, is never reset, and a call that succeeds started from an active handle.\<close>

theorem unlock_once:
  assumes "unlock clk m l w = (r, l', w')"
  shows "(unlocked l' \<longleftrightarrow> unlocked l \<or> r = Inr ()) \<and> (r = Inr () \<longrightarrow> \<not> unlocked l)"
  using assms
  by (auto simp: unlock_def Let_def split: if_splits option.splits prod.splits)

text \<open>C18: After a successful release, releasing the same handle again fails with
  \<open>ErrAlreadyUnlocked\<close> whatever the storage holds, and touches neither the
  storage nor the handle.\<close>

theorem unlock_twice:
  assumes "unlock clk m l w = (Inr (), l', w')"
  shows "unlock clk m' l' w'' = (Inl ErrAlreadyUnlocked, l', w'')"
  using unlock_handle [OF assms] by (simp add: unlock_def)

text \<open>C7: A release succeeds only from an active, unexpired handle, after \<open>Get\<close> returned
  exactly the handle's token and \<open>Delete\<close> returned no error; it returns with the world
  that \<open>Delete\<close> left.\<close>

theorem unlock_success:
  assumes "storage m = Some drv" and "unlock clk m l w = (Inr (), l', w')"
  shows "\<not> unlocked l \<and> time_Now clk w \<le> until l \<and>
    (\<exists>x y w1. drv_Get drv (key l) w = ((x, lvalue l, None), w1) \<and> drv_Delete drv (key l) w1 = ((y, None), w'))"
  using assms
  by (auto simp: unlock_def Let_def time_After_def split: if_splits option.splits prod.splits)

text \<open>C20: When the stored value is not the handle's token, the release fails with
  \<open>ErrTryUnlockAnother\<close> after the \<open>Get\<close> alone: nothing is deleted and the handle stays
  active.\<close>

theorem unlock_other_owner:
  assumes "storage m = Some drv" and "\<not> unlocked l" and "time_Now clk w \<le> until l"
    and "drv_Get drv (key l) w = ((x, res, None), w1)" and "res \<noteq> lvalue l"
  shows "unlock clk m l w = (Inl ErrTryUnlockAnother, l, w1)"
  using assms by (auto simp: unlock_def time_After_def)

text \<open>C21: A release fails with \<open>ErrExpired\<close> only for an active handle whose expiry
  is strictly before the current time, and then it calls no storage operation.\<close>

theorem unlock_expired:
  assumes "unlock clk m l w = (Inl ErrExpired, l', w')"
  shows "until l < time_Now clk w \<and> \<not> unlocked l \<and> l' = l \<and> w' = w"
  using assms
  by (auto simp: unlock_def Let_def time_After_def split: if_splits option.splits prod.splits)

text \<open>C6: Whatever its outcome, a release leaves the world as it was, as the \<open>Get\<close> left
  it, or as a \<open>Delete\<close> left it that was issued right after a \<open>Get\<close> returned the
  handle's own token: the record of another owner is never deleted.\<close>

theorem unlock_delete_guarded:
  assumes "storage m = Some drv" and "unlock clk m l w = (r, l', w')"
  shows "w' = w \<or> w' = snd (drv_Get drv (key l) w) \<or>
    (\<exists>x w1. drv_Get drv (key l) w = ((x, lvalue l, None), w1) \<and> w' = snd (drv_Delete drv (key l) w1))"
  using assms
  by (auto simp: unlock_def Let_def split: if_splits option.splits prod.splits)

end
