(* ===== verification/Options.thy ===== *)
theory Options
  imports Mutex Utils
begin

text \<open>
  Construction of a \<open>Mutex\<close>: the options of \<open>src/mutex_option.go\<close> and \<open>New\<close>
  (\<open>src/mutex.go\<close>, lines 47--61). A Go \<open>Option\<close> is a closure over \<open>*Mutex\<close>;
  here it is a function on the \<open>Mutex\<close> record, and \<open>New\<close> applies the options
  left to right to the default configuration before it checks the driver. The
  defaults are \<open>defaultGenValue\<close> and \<open>defaultDelayFunc\<close> over the runtime's
  \<open>math/rand\<close> source \<open>rnd\<close>. The datatype \<open>opt_req\<close> names the three options the
  package exports, so that lemmas can range over every option list a client can build.
\<close>

type_synonym ('w, 'e) Option = "('w, 'e) Mutex \<Rightarrow> ('w, 'e) Mutex"

definition WithTries :: "64 word \<Rightarrow> ('w, 'e) Option" where
  "WithTries t = (let t = (if t < 1 then 1 else t) in (\<lambda>m. m\<lparr>tries := t\<rparr>))"

definition WithValueGenerationFunc :: "('w \<Rightarrow> bytes \<times> 'w) \<Rightarrow> ('w, 'e) Option" where
  "WithValueGenerationFunc fn = (\<lambda>m. m\<lparr>genValueFunc := fn\<rparr>)"

definition WithDalayFunc :: "(int \<Rightarrow> 'w \<Rightarrow> duration \<times> 'w) \<Rightarrow> ('w, 'e) Option" where
  "WithDalayFunc fn = (\<lambda>m. m\<lparr>delayFunc := fn\<rparr>)"

definition missed_storage_driver :: string where
  "missed_storage_driver = ''missed storage driver''"

definition New ::
  "'w go_rand \<Rightarrow> ('w, 'e) mutexStorageDriver option \<Rightarrow> ('w, 'e) Option list \<Rightarrow> 'e lock_error + ('w, 'e) Mutex" where
  "New rnd s opt =
     (let m = \<lparr>storage = s, tries = 1, genValueFunc = defaultGenValue rnd, delayFunc = defaultDelayFunc rnd\<rparr>;
          m = foldl (\<lambda>m f. f m) m opt
      in if storage m = None then Inl (Panic missed_storage_driver) else Inr m)"

datatype 'w opt_req =
    OptTries "64 word"
  | OptValueGen "'w \<Rightarrow> bytes \<times> 'w"
  | OptDelay "int \<Rightarrow> 'w \<Rightarrow> duration \<times> 'w"

fun option_of :: "'w opt_req \<Rightarrow> ('w, 'e) Option" where
  "option_of (OptTries t) = WithTries t"
| "option_of (OptValueGen fn) = WithValueGenerationFunc fn"
| "option_of (OptDelay fn) = WithDalayFunc fn"

text \<open>The \<open>tries\<close> a list of option requests leaves: the last \<open>WithTries\<close>, clamped
  to at least 1, or the default 1.\<close>

fun last_tries :: "64 word \<Rightarrow> 'w opt_req list \<Rightarrow> 64 word" where
  "last_tries t [] = t"
| "last_tries t (OptTries t' # rs) = last_tries (max 1 t') rs"
| "last_tries t (_ # rs) = last_tries t rs"

section \<open>Lemmas\<close>

lemma WithTries_clamp: "WithTries t m = m\<lparr>tries := max 1 t\<rparr>"
  by (auto simp: WithTries_def max_def word_less_1 word_one_le_iff)

lemma option_of_storage [simp]: "storage (option_of r m) = storage m"
  by (cases r) (simp_all add: WithTries_clamp WithValueGenerationFunc_def WithDalayFunc_def)

lemma foldl_options_storage:
  "storage (foldl (\<lambda>m f. f m) m (map option_of rs)) = storage m"
  by (induction rs arbitrary: m) simp_all

lemma foldl_options_tries:
  "tries (foldl (\<lambda>m f. f m) m (map option_of rs)) = last_tries (tries m) rs"
proof (induction rs arbitrary: m)
  case Nil
  then show ?case by simp
next
  case (Cons r rs)
  then show ?case
    by (cases r) (simp_all add: WithTries_clamp WithValueGenerationFunc_def WithDalayFunc_def)
qed

text \<open>C24: \<open>New\<close> panics, with the message \<open>"missed storage driver"\<close>, exactly when it
  is given no driver, and returns a \<open>Mutex\<close> otherwise, whatever options of the package
  it is given.\<close>

theorem New_panics:
  "(New rnd s (map option_of rs) = Inl (Panic ''missed storage driver'') \<longleftrightarrow> s = None)
   \<and> ((\<exists>m. New rnd s (map option_of rs) = Inr m) \<longleftrightarrow> s \<noteq> None)"
  by (simp add: New_def Let_def foldl_options_storage missed_storage_driver_def)

lemma last_tries_pos: "t \<noteq> 0 \<Longrightarrow> last_tries t rs \<noteq> 0"
  by (induction t rs rule: last_tries.induct) simp_all

text \<open>C23: A \<open>Mutex\<close> built by \<open>New\<close> keeps the driver it was given, and its \<open>tries\<close> is the
  argument of the last \<open>WithTries\<close> clamped to at least 1, or 1 without one; it is never 0.\<close>

theorem New_tries:
  assumes "New rnd s (map option_of rs) = Inr m"
  shows "storage m = s \<and> tries m = last_tries 1 rs \<and> tries m \<noteq> 0"
  using assms last_tries_pos [of 1 rs]
  by (auto simp: New_def Let_def foldl_options_storage foldl_options_tries split: if_splits)

end
