(* ===== verification/MemStore.thy ===== *)
theory MemStore
  imports Options
begin

text \<open>
  An implementation of the storage driver contract (\<open>mutexStorageDriver\<close> in
  \<open>src/mutex.go\<close>, lines 29--43, and section 6 of the specification): the
  repository ships no driver, so this one is modelled from the contract. The world is
  an in-memory key-value store with a clock: a record lives until its expiry,
  \<open>Set\<close> creates a record only when no live one holds the key, \<open>Get\<close> returns the
  live record's data or the empty value, \<open>Delete\<close> removes the record. Every call
  arrives at the store \<open>mem_lat_req\<close> nanoseconds after it is issued, acts there, and
  its reply arrives \<open>mem_lat_resp\<close> nanoseconds later; a store that is down answers
  every call with an error. The same world carries the state of \<open>math/rand\<close>
  (\<open>mem_seed\<close>) and counts the \<open>Set\<close> calls it served. Clients may read their own
  clock off the store's by a constant (\<open>skew_clk\<close>); composed with \<open>Mutex.Lock\<close>, the
  store shows that a handle never outlives its record whatever the skew.
\<close>

record mem_world =
  mem_records :: "string \<rightharpoonup> (int \<times> bytes \<times> time)" \<comment> \<open>id, data, expiry\<close>
  mem_clock :: time
  mem_next_id :: int
  mem_lat_req :: nat
  mem_lat_resp :: nat
  mem_down :: bool
  mem_seed :: nat
  mem_set_calls :: nat

definition mem_arrive :: "mem_world \<Rightarrow> mem_world" where
  "mem_arrive w = w\<lparr>mem_clock := mem_clock w + int (mem_lat_req w)\<rparr>"

definition mem_reply :: "mem_world \<Rightarrow> mem_world" where
  "mem_reply w = w\<lparr>mem_clock := mem_clock w + int (mem_lat_resp w)\<rparr>"

definition mem_live :: "mem_world \<Rightarrow> string \<Rightarrow> (int \<times> bytes \<times> time) option" where
  "mem_live w k =
     (case mem_records w k of
        None \<Rightarrow> None
      | Some (i, d, e) \<Rightarrow> if mem_clock w < e then Some (i, d, e) else None)"

definition mem_conn_error :: string where
  "mem_conn_error = ''connection refused''"

definition mem_Set :: "string \<Rightarrow> bytes \<Rightarrow> duration \<Rightarrow> mem_world \<Rightarrow> (int \<times> bool \<times> string option) \<times> mem_world" where
  "mem_Set k v ttl w =
     (let w0 = mem_arrive (w\<lparr>mem_set_calls := Suc (mem_set_calls w)\<rparr>)
      in if mem_down w0 then ((0, False, Some mem_conn_error), mem_reply w0)
         else case mem_live w0 k of
           Some _ \<Rightarrow> ((0, False, None), mem_reply w0)
         | None \<Rightarrow>
             (let i = mem_next_id w0
              in ((i, True, None),
                  mem_reply (w0\<lparr>mem_records := (mem_records w0)(k \<mapsto> (i, v, mem_clock w0 + sint ttl)),
                                mem_next_id := i + 1\<rparr>))))"

definition mem_Get :: "string \<Rightarrow> mem_world \<Rightarrow> (int \<times> bytes \<times> string option) \<times> mem_world" where
  "mem_Get k w =
     (let w0 = mem_arrive w
      in if mem_down w0 then ((0, [], Some mem_conn_error), mem_reply w0)
         else case mem_live w0 k of
           Some (i, d, _) \<Rightarrow> ((i, d, None), mem_reply w0)
         | None \<Rightarrow> ((0, [], None), mem_reply w0))"

definition mem_Delete :: "string \<Rightarrow> mem_world \<Rightarrow> (int \<times> string option) \<times> mem_world" where
  "mem_Delete k w =
     (let w0 = mem_arrive w
      in if mem_down w0 then ((0, Some mem_conn_error), mem_reply w0)
         else
           (let w1 = mem_reply (w0\<lparr>mem_records := (mem_records w0)(k := None)\<rparr>)
            in case mem_live w0 k of
                 Some (i, _, _) \<Rightarrow> ((i, None), w1)
               | None \<Rightarrow> ((0, None), w1)))"

definition mem_driver :: "(mem_world, string) mutexStorageDriver" where
  "mem_driver = \<lparr>drv_Set = mem_Set, drv_Get = mem_Get, drv_Delete = mem_Delete\<rparr>"

text \<open>\<open>time.Sleep(d)\<close> returns at once for \<open>d \<le> 0\<close>.\<close>

definition mem_clk :: "mem_world go_clock" where
  "mem_clk = \<lparr>time_Now = mem_clock,
              time_Sleep = (\<lambda>d w. if sint d \<le> 0 then w else w\<lparr>mem_clock := mem_clock w + sint d\<rparr>)\<rparr>"

text \<open>A client whose clock is off the store's by a constant \<open>\<delta>\<close> (clock skew, section 9 of
  the specification). Sleeping is measured on the store's clock.\<close>

definition skew_clk :: "int \<Rightarrow> mem_world go_clock" where
  "skew_clk \<delta> = \<lparr>time_Now = (\<lambda>w. mem_clock w + \<delta>), time_Sleep = time_Sleep mem_clk\<rparr>"

text \<open>A \<open>math/rand\<close> source: \<open>Read\<close> fills the buffer with bytes counted up from the
  seed, \<open>Intn(n)\<close> returns the seed modulo \<open>n\<close>; both advance the seed.\<close>

definition mem_rand :: "mem_world go_rand" where
  "mem_rand = \<lparr>rand_Read = (\<lambda>b w. ((int (length b), None),
                                    map (\<lambda>i. word_of_nat (mem_seed w + i)) [0..<length b],
                                    w\<lparr>mem_seed := Suc (mem_seed w)\<rparr>)),
               rand_Intn = (\<lambda>n w. (int (mem_seed w) mod n, w\<lparr>mem_seed := Suc (mem_seed w)\<rparr>))\<rparr>"

lemmas mem_defs = mem_Set_def mem_Get_def mem_Delete_def mem_arrive_def mem_reply_def mem_live_def
  mem_driver_def mem_clk_def

section \<open>Lemmas on the store\<close>

lemma mem_Set_clock: "mem_clock (snd (mem_Set k v ttl w)) = mem_clock w + int (mem_lat_req w) + int (mem_lat_resp w)"
  by (simp add: mem_defs Let_def split: option.splits)

lemma mem_Get_clock: "mem_clock (snd (mem_Get k w)) = mem_clock w + int (mem_lat_req w) + int (mem_lat_resp w)"
  by (simp add: mem_defs Let_def split: option.splits prod.splits)

lemma mem_Set_lat_req: "mem_lat_req (snd (mem_Set k v ttl w)) = mem_lat_req w"
  by (simp add: mem_defs Let_def split: option.splits)

lemma mem_Set_monotone: "\<forall>v u. time_Now mem_clk u \<le> time_Now mem_clk (snd (drv_Set mem_driver k v ttl u))"
  by (simp add: mem_Set_clock mem_driver_def mem_clk_def)

lemma mem_rand_contracts: "intn_contract mem_rand \<and> read_contract mem_rand"
  by (simp add: intn_contract_def read_contract_def mem_rand_def)

text \<open>A \<open>Set\<close> that created the record stores it with the expiry the store computed
  at arrival.\<close>

lemma mem_Set_created:
  "mem_Set k v ttl u = ((x, True, None), w') \<Longrightarrow>
   mem_records w' k = Some (x, v, mem_clock u + int (mem_lat_req u) + sint ttl)"
  by (auto simp: mem_defs Let_def split: if_splits option.splits)

section \<open>Mutex.Lock over the in-memory store\<close>

text \<open>C5: Composition of \<open>Mutex.Lock\<close> with a store that keeps the driver contract,
  for a client whose clock is off the store's by any constant \<open>\<delta>\<close>: when \<open>Lock\<close> returns
  a handle, the store holds the handle's token under the key, and the handle's expiry
  read on the store's clock (\<open>until l - \<delta>\<close>) precedes the record's by exactly the
  store's request latency \<open>mem_lat_req\<close> (of the world \<open>Lock\<close> returns: \<open>Set\<close> leaves
  the latencies alone); the record is live on return. The handle
  never outlives the record (section 3 of the specification), whatever the skew.\<close>

theorem Lock_within_store_record:
  assumes "Lock (skew_clk \<delta>) m k ttl w = (Inr l, w')" and "storage m = Some mem_driver" and "0 \<le> sint ttl"
  shows "\<exists>i. mem_records w' k = Some (i, lvalue l, until l - \<delta> + int (mem_lat_req w'))
           \<and> mem_clock w' + \<delta> < until l"
proof -
  have mono: "\<forall>v u. time_Now (skew_clk \<delta>) u \<le> time_Now (skew_clk \<delta>) (snd (drv_Set mem_driver k v ttl u))"
    by (simp add: mem_Set_clock mem_driver_def skew_clk_def)
  obtain u x where set: "drv_Set mem_driver k (lvalue l) ttl u = ((x, True, None), w')"
      and u: "until l = time_Now (skew_clk \<delta>) u + sint ttl"
    using Lock_Set_expiry [OF assms mono] by blast
  have "mem_lat_req w' = mem_lat_req u"
    using mem_Set_lat_req [of k "lvalue l" ttl u] set by (simp add: mem_driver_def)
  then have "mem_records w' k = Some (x, lvalue l, until l - \<delta> + int (mem_lat_req w'))"
    using mem_Set_created [of k "lvalue l" ttl u x w'] set u by (simp add: mem_driver_def skew_clk_def)
  moreover obtain w1 where "lock_attempt (skew_clk \<delta>) mem_driver k ttl (fst (genValueFunc m w)) w1 = (Done (Inr l), w')"
    using Lock_Inr_attempt [OF assms(1,2)] by blast
  then have "mem_clock w' + \<delta> < until l"
    using lock_attempt_Done_Inr by (fastforce simp: skew_clk_def)
  ultimately show ?thesis by blast
qed

end
