(* ===== verification/Lease.thy ===== *)
theory Lease
  imports Prelude
begin

text \<open>
  The abstract specification of what the package promises (sections 1 and 3 of the
  specification): a lock on one key, granted to clients as leases. A client is free
  or holds a lease until some instant; a lease is live while the clock has not passed
  it. A lease is granted only when no other client holds a live one and only for a
  future instant; a holder may give its lease up at any time; time only moves forward.
  Nothing here mentions a store, tokens or latency: those are how \<open>System\<close>
  implements the specification, and \<open>System.sys_refines_lease\<close> proves that it does.
\<close>

datatype lease = Free | Leased time

record lease_state =
  l_clock :: time
  l_cl :: "nat \<Rightarrow> lease"

definition l_live :: "lease_state \<Rightarrow> nat \<Rightarrow> bool" where
  "l_live a i \<longleftrightarrow> (case l_cl a i of Leased u \<Rightarrow> l_clock a \<le> u | Free \<Rightarrow> False)"

inductive lease_step :: "lease_state \<Rightarrow> lease_state \<Rightarrow> bool" where
  l_tick: "0 \<le> d \<Longrightarrow> lease_step a (a\<lparr>l_clock := l_clock a + d\<rparr>)"
| l_grant: "l_cl a i = Free \<Longrightarrow> l_clock a < u \<Longrightarrow> (\<forall>j. j \<noteq> i \<longrightarrow> \<not> l_live a j) \<Longrightarrow>
    lease_step a (a\<lparr>l_cl := (l_cl a)(i := Leased u)\<rparr>)"
| l_give_up: "l_cl a i = Leased u \<Longrightarrow> lease_step a (a\<lparr>l_cl := (l_cl a)(i := Free)\<rparr>)"

definition lease_init :: "time \<Rightarrow> lease_state" where
  "lease_init c = \<lparr>l_clock = c, l_cl = (\<lambda>_. Free)\<rparr>"

inductive lease_reach :: "lease_state \<Rightarrow> bool" where
  l_init: "lease_reach (lease_init c)"
| l_step: "lease_reach a \<Longrightarrow> lease_step a a' \<Longrightarrow> lease_reach a'"

text \<open>The specification's own guarantee: at most one live lease.\<close>

definition lease_inv :: "lease_state \<Rightarrow> bool" where
  "lease_inv a \<longleftrightarrow> (\<forall>i j. l_live a i \<longrightarrow> l_live a j \<longrightarrow> i = j)"

section \<open>Lemmas\<close>

lemma lease_inv_step: "lease_step a a' \<Longrightarrow> lease_inv a \<Longrightarrow> lease_inv a'"
  by (induction rule: lease_step.induct) (auto simp: lease_inv_def l_live_def split: lease.splits)

lemma lease_reach_inv: "lease_reach a \<Longrightarrow> lease_inv a"
proof (induction rule: lease_reach.induct)
  case (l_init c)
  show ?case by (simp add: lease_inv_def l_live_def lease_init_def)
next
  case (l_step a a')
  then show ?case by (blast intro: lease_inv_step)
qed

lemma lease_exclusive: "lease_reach a \<Longrightarrow> l_live a i \<Longrightarrow> l_live a j \<Longrightarrow> i = j"
  using lease_reach_inv by (auto simp: lease_inv_def)

end
