(* ===== verification/System.thy ===== *)
theory System
  imports Mutex Lease
begin

text \<open>
  Several clients sharing one store (section 5 of the specification): the package
  keeps no shared state of its own, so what one process's \<open>Lock\<close> and \<open>unlock\<close>
  guarantee against another's is decided by how their store calls interleave. This
  theory models one key of the store and any number of clients (numbered by \<open>nat\<close>)
  as an inductive step relation \<open>sys_step\<close>, one rule per point of \<open>src/mutex.go\<close>
  where a client touches the shared state or reads the clock:
  \<open>start\<close> is \<open>start := time.Now()\<close> (line 72); \<open>set_created\<close> and \<open>set_taken\<close> the
  two answers of the atomic create-if-absent \<open>Set\<close> (74--78); \<open>acquired\<close> and
  \<open>acquire_expired\<close> the expiry computation and check (79--93), with the code's own
  \<open>time_Add\<close>, \<open>time_Sub\<close> and \<open>time_Before\<close>; \<open>release_expired\<close> the check of line
  107; \<open>release_get\<close> the \<open>Get\<close> and comparison (111--116) and \<open>release_delete\<close> the
  \<open>Delete\<close> (117--121), two separate steps as in the code. \<open>set_error\<close> and
  \<open>delete_error\<close> are a \<open>Set\<close> or \<open>Delete\<close> that fails (lines 75--77, 118--119):
  the store is unchanged, the acquisition ends, and a failed \<open>Delete\<close> leaves the
  handle held (\<open>l.unlocked\<close> stays false); a failed \<open>Get\<close> changes nothing. \<open>tick\<close>
  lets time pass between any two steps: it stands for latency, scheduling and sleeps.
  Each acquisition makes one attempt (a retry is a new acquisition), each client has
  its own token, and the store acts at the instant of the step; a record is live until
  its expiry inclusive. The flag \<open>atomic\<close> replaces the two release steps by one
  (\<open>release_atomic\<close>): not a step of the code, but the release the code would need,
  used to compare with it.

  Results: the code's release can be interleaved between its \<open>Get\<close> and its
  \<open>Delete\<close>: a client that passed its \<open>Get\<close> can be delayed past its record's expiry,
  and its \<open>Delete\<close> then removes the record of the next owner, so two clients hold
  unexpired handles (\<open>release_race\<close>). That late \<open>Delete\<close> is the only way it fails:
  with a non-negative TTL and distinct tokens, in every execution whose steps are
  \<open>timely\<close> (no client deletes after its handle expired) no two clients hold unexpired
  handles (\<open>mutual_exclusion_timely\<close>, by the invariant \<open>sys_inv\<close> over the
  reachable states), and the system refines the lease specification of \<open>Lease\<close>, as
  does the atomic system in every execution (\<open>sys_refines_lease\<close>). From any state an
  idle client can acquire once the stored record expired (\<open>acquire_progress\<close>). The
  refinement lemmas show that \<open>Lock\<close> (its retries and sleeps included) and
  \<open>unlock\<close>, run against a driver over this state, are sequences of these steps.\<close>

text \<open>Where a client is in \<open>Lock\<close> or \<open>unlock\<close>: the start time it read, or its handle.\<close>

datatype cpc =
    Idle
  | Setting time
  | Created time
  | Holding locked
  | Releasing locked

text \<open>The record stored under the key (token and expiry), the clock, and the clients.\<close>

record sys =
  st :: "(bytes \<times> time) option"
  clock :: time
  cl :: "nat \<Rightarrow> cpc"

text \<open>What the store answers: whether a record is live, and what \<open>Get\<close> returns
  (the empty value when there is none).\<close>

definition live :: "sys \<Rightarrow> bool" where
  "live s \<longleftrightarrow> (case st s of None \<Rightarrow> False | Some (d, e) \<Rightarrow> clock s \<le> e)"

definition stored :: "sys \<Rightarrow> bytes" where
  "stored s = (case st s of Some (d, e) \<Rightarrow> if clock s \<le> e then d else [] | None \<Rightarrow> [])"

text \<open>The expiry \<open>now.Add(ttl - now.Sub(start))\<close> of line 80.\<close>

definition acq_until :: "duration \<Rightarrow> time \<Rightarrow> time \<Rightarrow> time" where
  "acq_until ttl start now = time_Add now (ttl - time_Sub now start)"

text \<open>The steps.\<close>

inductive sys_step :: "bool \<Rightarrow> string \<Rightarrow> duration \<Rightarrow> (nat \<Rightarrow> bytes) \<Rightarrow> sys \<Rightarrow> sys \<Rightarrow> bool"
  for atomic :: bool and k :: string and ttl :: duration and toks :: "nat \<Rightarrow> bytes" where
  tick: "0 \<le> d \<Longrightarrow> sys_step atomic k ttl toks s (s\<lparr>clock := clock s + d\<rparr>)"
| start: "cl s i = Idle \<Longrightarrow> sys_step atomic k ttl toks s (s\<lparr>cl := (cl s)(i := Setting (clock s))\<rparr>)"
| set_created: "cl s i = Setting t \<Longrightarrow> \<not> live s \<Longrightarrow>
    sys_step atomic k ttl toks s (s\<lparr>st := Some (toks i, clock s + sint ttl), cl := (cl s)(i := Created t)\<rparr>)"
| set_taken: "cl s i = Setting t \<Longrightarrow> live s \<Longrightarrow> sys_step atomic k ttl toks s (s\<lparr>cl := (cl s)(i := Idle)\<rparr>)"
| acquired: "cl s i = Created t \<Longrightarrow> time_Before (clock s) (acq_until ttl t (clock s)) \<Longrightarrow>
    sys_step atomic k ttl toks s (s\<lparr>cl := (cl s)(i := Holding
      \<lparr>key = k, lvalue = toks i, until = acq_until ttl t (clock s), unlocked = False\<rparr>)\<rparr>)"
| acquire_expired: "cl s i = Created t \<Longrightarrow> \<not> time_Before (clock s) (acq_until ttl t (clock s)) \<Longrightarrow>
    sys_step atomic k ttl toks s (s\<lparr>cl := (cl s)(i := Idle)\<rparr>)"
| release_expired: "cl s i = Holding h \<Longrightarrow> time_After (clock s) (until h) \<Longrightarrow>
    sys_step atomic k ttl toks s (s\<lparr>cl := (cl s)(i := Idle)\<rparr>)"
| release_get: "\<not> atomic \<Longrightarrow> cl s i = Holding h \<Longrightarrow> \<not> time_After (clock s) (until h) \<Longrightarrow>
    stored s = lvalue h \<Longrightarrow> sys_step atomic k ttl toks s (s\<lparr>cl := (cl s)(i := Releasing h)\<rparr>)"
| release_delete: "cl s i = Releasing h \<Longrightarrow>
    sys_step atomic k ttl toks s (s\<lparr>st := None, cl := (cl s)(i := Idle)\<rparr>)"
| release_atomic: "atomic \<Longrightarrow> cl s i = Holding h \<Longrightarrow> \<not> time_After (clock s) (until h) \<Longrightarrow>
    stored s = lvalue h \<Longrightarrow> sys_step atomic k ttl toks s (s\<lparr>st := None, cl := (cl s)(i := Idle)\<rparr>)"
| set_error: "cl s i = Setting t \<Longrightarrow> sys_step atomic k ttl toks s (s\<lparr>cl := (cl s)(i := Idle)\<rparr>)"
| delete_error: "cl s i = Releasing h \<Longrightarrow> sys_step atomic k ttl toks s (s\<lparr>cl := (cl s)(i := Holding h)\<rparr>)"

text \<open>The initial state, the driver and clock over it, and the reachable states.\<close>

definition sys_init :: "time \<Rightarrow> sys" where
  "sys_init c = \<lparr>st = None, clock = c, cl = (\<lambda>_. Idle)\<rparr>"

definition sys_driver :: "(sys, string) mutexStorageDriver" where
  "sys_driver = \<lparr>drv_Set = (\<lambda>k v t s. if live s then ((0, False, None), s)
                                       else ((1, True, None), s\<lparr>st := Some (v, clock s + sint t)\<rparr>)),
                 drv_Get = (\<lambda>k s. ((0, stored s, None), s)),
                 drv_Delete = (\<lambda>k s. ((0, None), s\<lparr>st := None\<rparr>))\<rparr>"

definition sys_clk :: "sys go_clock" where
  "sys_clk = \<lparr>time_Now = clock, time_Sleep = (\<lambda>d s. if sint d \<le> 0 then s else s\<lparr>clock := clock s + sint d\<rparr>)\<rparr>"

inductive reach :: "(sys \<Rightarrow> sys \<Rightarrow> bool) \<Rightarrow> sys \<Rightarrow> bool"
  for r :: "sys \<Rightarrow> sys \<Rightarrow> bool" where
  init: "reach r (sys_init c)"
| step: "reach r s \<Longrightarrow> r s s' \<Longrightarrow> reach r s'"

text \<open>A step is timely when no client that is between its \<open>Get\<close> and its \<open>Delete\<close>
  leaves that point after its handle expired: a condition on the scheduling of the
  clients, not on the code.\<close>

definition timely :: "sys \<Rightarrow> sys \<Rightarrow> bool" where
  "timely s s' \<longleftrightarrow> (\<forall>i h. cl s i = Releasing h \<longrightarrow> cl s' i \<noteq> Releasing h \<longrightarrow> \<not> time_After (clock s) (until h))"

text \<open>A client is active while it holds a handle that has not expired; it owns the
  store's record up to \<open>u\<close> when, while the clock is at most \<open>u\<close>, the record carries
  its token and expires no earlier than \<open>u\<close>.\<close>

definition active :: "sys \<Rightarrow> nat \<Rightarrow> bool" where
  "active s i \<longleftrightarrow> (\<exists>h. cl s i = Holding h \<and> \<not> time_After (clock s) (until h))"

definition owns :: "duration \<Rightarrow> (nat \<Rightarrow> bytes) \<Rightarrow> sys \<Rightarrow> nat \<Rightarrow> time \<Rightarrow> bool" where
  "owns ttl toks s i u \<longleftrightarrow> (clock s \<le> u \<longrightarrow> (\<exists>e. st s = Some (toks i, e) \<and> u \<le> e))"

text \<open>The invariant: a client that started an acquisition read a past clock; one whose
  record was created owns it up to its start plus TTL; one that holds a handle, or is
  between \<open>Get\<close> and \<open>Delete\<close>, owns the record up to the handle's expiry; in the
  atomic system nobody is between \<open>Get\<close> and \<open>Delete\<close>.\<close>

definition sys_inv :: "bool \<Rightarrow> string \<Rightarrow> duration \<Rightarrow> (nat \<Rightarrow> bytes) \<Rightarrow> sys \<Rightarrow> bool" where
  "sys_inv atomic k ttl toks s \<longleftrightarrow>
     (\<forall>i t. cl s i = Setting t \<longrightarrow> t \<le> clock s)
   \<and> (\<forall>i t. cl s i = Created t \<longrightarrow> t \<le> clock s \<and> owns ttl toks s i (t + sint ttl))
   \<and> (\<forall>i h. cl s i = Holding h \<longrightarrow> key h = k \<and> lvalue h = toks i \<and> owns ttl toks s i (until h))
   \<and> (\<forall>i h. cl s i = Releasing h \<longrightarrow> \<not> atomic \<and> key h = k \<and> lvalue h = toks i \<and> owns ttl toks s i (until h))"

text \<open>What the clients hold, seen through the lease specification of \<open>Lease\<close>: a
  client holding a handle, or releasing it (its \<open>unlock\<close> has not returned), holds a
  lease until the handle's expiry; every other client is free.\<close>

definition sys_abs :: "sys \<Rightarrow> lease_state" where
  "sys_abs s = \<lparr>l_clock = clock s,
     l_cl = (\<lambda>i. case cl s i of Holding h \<Rightarrow> Leased (until h) | Releasing h \<Rightarrow> Leased (until h) | _ \<Rightarrow> Free)\<rparr>"

text \<open>An executable version of the steps, to replay a concrete interleaving.\<close>

datatype action = Tick int | Start nat | SetKey nat | Acquire nat | RelExpired nat | RelGet nat | RelDelete nat | RelAtomic nat

fun exec_action :: "bool \<Rightarrow> string \<Rightarrow> duration \<Rightarrow> (nat \<Rightarrow> bytes) \<Rightarrow> action \<Rightarrow> sys \<Rightarrow> sys option" where
  "exec_action atomic k ttl toks (Tick d) s = (if 0 \<le> d then Some (s\<lparr>clock := clock s + d\<rparr>) else None)"
| "exec_action atomic k ttl toks (Start i) s =
     (case cl s i of Idle \<Rightarrow> Some (s\<lparr>cl := (cl s)(i := Setting (clock s))\<rparr>) | _ \<Rightarrow> None)"
| "exec_action atomic k ttl toks (SetKey i) s =
     (case cl s i of
        Setting t \<Rightarrow> if live s then Some (s\<lparr>cl := (cl s)(i := Idle)\<rparr>)
                    else Some (s\<lparr>st := Some (toks i, clock s + sint ttl), cl := (cl s)(i := Created t)\<rparr>)
      | _ \<Rightarrow> None)"
| "exec_action atomic k ttl toks (Acquire i) s =
     (case cl s i of
        Created t \<Rightarrow> if time_Before (clock s) (acq_until ttl t (clock s))
                    then Some (s\<lparr>cl := (cl s)(i := Holding
                           \<lparr>key = k, lvalue = toks i, until = acq_until ttl t (clock s), unlocked = False\<rparr>)\<rparr>)
                    else Some (s\<lparr>cl := (cl s)(i := Idle)\<rparr>)
      | _ \<Rightarrow> None)"
| "exec_action atomic k ttl toks (RelExpired i) s =
     (case cl s i of Holding h \<Rightarrow> if time_After (clock s) (until h) then Some (s\<lparr>cl := (cl s)(i := Idle)\<rparr>) else None
      | _ \<Rightarrow> None)"
| "exec_action atomic k ttl toks (RelGet i) s =
     (case cl s i of Holding h \<Rightarrow>
        if \<not> atomic \<and> \<not> time_After (clock s) (until h) \<and> stored s = lvalue h
        then Some (s\<lparr>cl := (cl s)(i := Releasing h)\<rparr>) else None
      | _ \<Rightarrow> None)"
| "exec_action atomic k ttl toks (RelDelete i) s =
     (case cl s i of Releasing h \<Rightarrow> Some (s\<lparr>st := None, cl := (cl s)(i := Idle)\<rparr>) | _ \<Rightarrow> None)"
| "exec_action atomic k ttl toks (RelAtomic i) s =
     (case cl s i of Holding h \<Rightarrow>
        if atomic \<and> \<not> time_After (clock s) (until h) \<and> stored s = lvalue h
        then Some (s\<lparr>st := None, cl := (cl s)(i := Idle)\<rparr>) else None
      | _ \<Rightarrow> None)"

fun exec_actions :: "bool \<Rightarrow> string \<Rightarrow> duration \<Rightarrow> (nat \<Rightarrow> bytes) \<Rightarrow> action list \<Rightarrow> sys \<Rightarrow> sys option" where
  "exec_actions atomic k ttl toks [] s = Some s"
| "exec_actions atomic k ttl toks (a # as) s =
     (case exec_action atomic k ttl toks a s of None \<Rightarrow> None | Some s' \<Rightarrow> exec_actions atomic k ttl toks as s')"

text \<open>The same under a scheduler that lets no client delete after its handle expired:
  the run stops (\<open>None\<close>) at a late \<open>Delete\<close>.\<close>

fun timely_action :: "action \<Rightarrow> sys \<Rightarrow> bool" where
  "timely_action (RelDelete i) s = (case cl s i of Releasing h \<Rightarrow> \<not> time_After (clock s) (until h) | _ \<Rightarrow> True)"
| "timely_action a s = True"

fun exec_timely :: "string \<Rightarrow> duration \<Rightarrow> (nat \<Rightarrow> bytes) \<Rightarrow> action list \<Rightarrow> sys \<Rightarrow> sys option" where
  "exec_timely k ttl toks [] s = Some s"
| "exec_timely k ttl toks (a # as) s =
     (if timely_action a s
      then (case exec_action False k ttl toks a s of None \<Rightarrow> None | Some s' \<Rightarrow> exec_timely k ttl toks as s')
      else None)"

text \<open>Client 0 acquires with a TTL of 10 ns and reads its own token back; 11 ns pass;
  client 1 acquires the expired key; client 0 deletes; client 2 acquires.\<close>

definition race_run :: "action list" where
  "race_run = [Start 0, SetKey 0, Acquire 0, RelGet 0, Tick 11, Start 1, SetKey 1, Acquire 1,
               RelDelete 0, Start 2, SetKey 2, Acquire 2]"

section \<open>Lemmas\<close>

lemma live_cl [simp]: "live (s\<lparr>cl := c\<rparr>) = live s"
  by (simp add: live_def split: option.splits)

lemma stored_cl [simp]: "stored (s\<lparr>cl := c\<rparr>) = stored s"
  by (simp add: stored_def split: option.splits)

lemma owns_unique:
  "inj toks \<Longrightarrow> owns ttl toks s i u \<Longrightarrow> owns ttl toks s j u' \<Longrightarrow> clock s \<le> u \<Longrightarrow> clock s \<le> u' \<Longrightarrow> i = j"
  by (auto simp: owns_def dest: injD)

lemma owns_live: "owns ttl toks s i u \<Longrightarrow> clock s \<le> u \<Longrightarrow> live s"
  by (auto simp: owns_def live_def)

lemma sys_inv_init: "sys_inv atomic k ttl toks (sys_init c)"
  by (simp add: sys_inv_def sys_init_def)

text \<open>Deleting the record of a client that owns it at the current clock keeps the
  invariant: no other client owned it.\<close>

lemma sys_inv_delete:
  assumes inv: "sys_inv atomic k ttl toks s" and o: "owns ttl toks s i u" and c: "clock s \<le> u"
    and "inj toks"
  shows "sys_inv atomic k ttl toks (s\<lparr>st := None, cl := (cl s)(i := Idle)\<rparr>)"
proof -
  have gone: "u' < clock s" if "owns ttl toks s j u'" and "j \<noteq> i" for j u'
    using owns_unique [OF assms(4) that(1) o _ c] that(2) by fastforce
  from inv gone show ?thesis by (fastforce simp: sys_inv_def owns_def)
qed

lemma sys_inv_step:
  assumes "sys_step atomic k ttl toks s s'" and "sys_inv atomic k ttl toks s"
    and "\<not> atomic \<longrightarrow> timely s s'" and "0 \<le> sint ttl" and "inj toks"
  shows "sys_inv atomic k ttl toks s'"
  using assms(1,2,3)
proof (induction rule: sys_step.induct)
  case (tick d s)
  then show ?case by (fastforce simp: sys_inv_def owns_def)
next
  case (start s i)
  then show ?case by (auto simp: sys_inv_def owns_def)
next
  case (set_created s i t)
  define s' where "s' = s\<lparr>st := Some (toks i, clock s + sint ttl), cl := (cl s)(i := Created t)\<rparr>"
  have dead: "owns ttl toks s' j u" if "owns ttl toks s j u" for j u
  proof -
    have "u < clock s" using owns_live [OF that] set_created.hyps(2) by fastforce
    then show ?thesis by (simp add: s'_def owns_def)
  qed
  have inv: "sys_inv atomic k ttl toks s" by (rule set_created.prems(1))
  have created: "owns ttl toks s' i (t + sint ttl)" "t \<le> clock s"
    using inv set_created.hyps(1) by (auto simp: s'_def sys_inv_def owns_def)
  have "sys_inv atomic k ttl toks s'"
    using inv created dead by (auto simp: sys_inv_def s'_def)
  then show ?case by (simp add: s'_def)
next
  case (set_taken s i t)
  then show ?case by (auto simp: sys_inv_def owns_def)
next
  case (acquired s i t)
  then have t: "t \<le> clock s" and o: "owns ttl toks s i (t + sint ttl)"
    by (auto simp: sys_inv_def)
  have "acq_until ttl t (clock s) = t + sint ttl"
    using adjusted_expiry [OF t assms(4)] acquired.hyps(2) by (simp add: acq_until_def)
  with acquired o show ?case by (auto simp: sys_inv_def owns_def)
next
  case (acquire_expired s i t)
  then show ?case by (auto simp: sys_inv_def owns_def)
next
  case (release_expired s i h)
  then show ?case by (auto simp: sys_inv_def owns_def)
next
  case (release_get s i h)
  then show ?case by (auto simp: sys_inv_def owns_def)
next
  case (set_error s i t)
  then show ?case by (auto simp: sys_inv_def owns_def)
next
  case (delete_error s i h)
  then show ?case by (auto simp: sys_inv_def owns_def)
next
  case (release_delete s i h)
  then have o: "owns ttl toks s i (until h)" and na: "\<not> atomic"
    by (auto simp: sys_inv_def)
  let ?s' = "s\<lparr>st := None, cl := (cl s)(i := Idle)\<rparr>"
  have "\<forall>j g. cl s j = Releasing g \<longrightarrow> cl ?s' j \<noteq> Releasing g \<longrightarrow> \<not> time_After (clock s) (until g)"
    using release_delete.prems(2) na by (simp only: timely_def simp_thms)
  then have "cl s i = Releasing h \<longrightarrow> cl ?s' i \<noteq> Releasing h \<longrightarrow> \<not> time_After (clock s) (until h)"
    by blast
  then have "clock s \<le> until h"
    using release_delete.hyps by (simp add: time_After_def)
  from sys_inv_delete [OF release_delete.prems(1) o this assms(5)] show ?case .
next
  case (release_atomic s i h)
  then have o: "owns ttl toks s i (until h)" and c: "clock s \<le> until h"
    by (auto simp: sys_inv_def time_After_def)
  from sys_inv_delete [OF release_atomic.prems(1) o c assms(5)] show ?case .
qed

text \<open>Every reachable state of a system whose steps are steps of \<open>sys_step\<close>, and
  timely unless the release is atomic, satisfies the invariant.\<close>

lemma reach_sys_inv:
  assumes "reach r s" and "\<And>s s'. r s s' \<Longrightarrow> sys_step atomic k ttl toks s s' \<and> (\<not> atomic \<longrightarrow> timely s s')"
    and "0 \<le> sint ttl" and "inj toks"
  shows "sys_inv atomic k ttl toks s"
  using assms(1)
proof (induction rule: reach.induct)
  case (init c)
  show ?case by (rule sys_inv_init)
next
  case (step s s')
  then show ?case using sys_inv_step assms(2-4) by blast
qed

text \<open>Two clients that hold unexpired handles in a state satisfying the invariant are
  the same client.\<close>

lemma sys_inv_exclusive:
  assumes inv: "sys_inv atomic k ttl toks s" and "inj toks" and "active s i" and "active s j"
  shows "i = j"
proof -
  obtain hi hj where "cl s i = Holding hi" "clock s \<le> until hi" "cl s j = Holding hj" "clock s \<le> until hj"
    using assms(3,4) by (auto simp: active_def time_After_def)
  with inv have "owns ttl toks s i (until hi)" "owns ttl toks s j (until hj)" "clock s \<le> until hi" "clock s \<le> until hj"
    by (auto simp: sys_inv_def)
  then show ?thesis using owns_unique assms(2) by blast
qed

text \<open>C2: With the code's two-step release, mutual exclusion holds in every execution in
  which no client deletes after its handle expired: the race of \<open>release_race\<close>
  needs a \<open>Delete\<close> that comes late.\<close>

theorem mutual_exclusion_timely:
  assumes "reach (\<lambda>s s'. sys_step False k ttl toks s s' \<and> timely s s') s" and "0 \<le> sint ttl"
    and "inj toks" and "active s i" and "active s j"
  shows "i = j"
proof -
  have "sys_inv False k ttl toks s"
    using reach_sys_inv [where atomic = False, OF assms(1) _ assms(2,3)] by blast
  then show ?thesis using sys_inv_exclusive assms(3-5) by blast
qed

text \<open>Refinement of the lease specification. An active client's abstract lease is live.\<close>

lemma active_l_live: "active s i \<Longrightarrow> l_live (sys_abs s) i"
  by (auto simp: active_def l_live_def sys_abs_def time_After_def split: cpc.splits)

lemma sys_abs_cl_upd:
  "sys_abs (s\<lparr>cl := (cl s)(i := c)\<rparr>) =
     (sys_abs s)\<lparr>l_cl := (l_cl (sys_abs s))(i := case c of Holding h \<Rightarrow> Leased (until h)
                                                    | Releasing h \<Rightarrow> Leased (until h) | _ \<Rightarrow> Free)\<rparr>"
  by (cases c) (auto simp: sys_abs_def fun_eq_iff)

lemma sys_abs_st [simp]: "sys_abs (s\<lparr>st := x\<rparr>) = sys_abs s"
  by (simp add: sys_abs_def)

lemma sys_abs_st_cl [simp]: "sys_abs (s\<lparr>st := x, cl := c\<rparr>) = sys_abs (s\<lparr>cl := c\<rparr>)"
  by (simp add: sys_abs_def)

text \<open>Every step of a state satisfying the invariant is a step of the specification, or
  leaves the abstract state unchanged.\<close>

lemma sys_abs_step:
  assumes "sys_step atomic k ttl toks s s'" and "sys_inv atomic k ttl toks s"
    and "0 \<le> sint ttl" and "inj toks"
  shows "lease_step (sys_abs s) (sys_abs s') \<or> sys_abs s' = sys_abs s"
  using assms(1,2)
proof (induction rule: sys_step.induct)
  case (tick d s)
  from tick.hyps have "lease_step (sys_abs s) ((sys_abs s)\<lparr>l_clock := l_clock (sys_abs s) + d\<rparr>)"
    by (rule lease_step.l_tick)
  then show ?case by (simp add: sys_abs_def)
next
  case (acquired s i t)
  let ?u = "acq_until ttl t (clock s)"
  from acquired have t: "t \<le> clock s" and o: "owns ttl toks s i (t + sint ttl)"
    by (auto simp: sys_inv_def)
  have u: "?u = t + sint ttl" and lt: "clock s < t + sint ttl"
    using adjusted_expiry [OF t assms(3)] acquired.hyps(2) by (simp_all add: acq_until_def time_Before_def)
  have others: "\<forall>j. j \<noteq> i \<longrightarrow> \<not> l_live (sys_abs s) j"
  proof (intro allI impI notI)
    fix j assume "j \<noteq> i" and "l_live (sys_abs s) j"
    then obtain hj where "cl s j = Holding hj \<or> cl s j = Releasing hj" "clock s \<le> until hj"
      by (auto simp: l_live_def sys_abs_def split: cpc.splits)
    with acquired.prems have "owns ttl toks s j (until hj)" by (auto simp: sys_inv_def)
    from owns_unique [OF assms(4) this o \<open>clock s \<le> until hj\<close>] lt \<open>j \<noteq> i\<close> show False by simp
  qed
  have "l_cl (sys_abs s) i = Free" using acquired.hyps(1) by (simp add: sys_abs_def)
  moreover have "l_clock (sys_abs s) < ?u" using lt u by (simp add: sys_abs_def)
  ultimately have "lease_step (sys_abs s) ((sys_abs s)\<lparr>l_cl := (l_cl (sys_abs s))(i := Leased ?u)\<rparr>)"
    using others by (rule lease_step.l_grant)
  then show ?case by (simp add: sys_abs_cl_upd)
next
  case (release_expired s i h)
  then have "lease_step (sys_abs s) ((sys_abs s)\<lparr>l_cl := (l_cl (sys_abs s))(i := Free)\<rparr>)"
    by (intro lease_step.l_give_up [of _ _ "until h"]) (simp add: sys_abs_def)
  then show ?case by (simp add: sys_abs_cl_upd)
next
  case (release_delete s i h)
  then have "lease_step (sys_abs s) ((sys_abs s)\<lparr>l_cl := (l_cl (sys_abs s))(i := Free)\<rparr>)"
    by (intro lease_step.l_give_up [of _ _ "until h"]) (simp add: sys_abs_def)
  then show ?case by (simp add: sys_abs_cl_upd)
next
  case (release_atomic s i h)
  then have "lease_step (sys_abs s) ((sys_abs s)\<lparr>l_cl := (l_cl (sys_abs s))(i := Free)\<rparr>)"
    by (intro lease_step.l_give_up [of _ _ "until h"]) (simp add: sys_abs_def)
  then show ?case by (simp add: sys_abs_cl_upd)
qed (auto simp: sys_abs_cl_upd sys_abs_def fun_eq_iff)

text \<open>C3: Refinement of the abstract specification: every reachable state of the client
  system, with the atomic release or with the code's release in a timely execution,
  and with a non-negative TTL and distinct tokens, is seen as a reachable state of the
  lease specification; so everything the specification guarantees (one live lease at
  a time, \<open>Lease.lease_exclusive\<close>) holds of the clients' handles.\<close>

theorem sys_refines_lease:
  assumes "reach r s" and "\<And>s s'. r s s' \<Longrightarrow> sys_step atomic k ttl toks s s' \<and> (\<not> atomic \<longrightarrow> timely s s')"
    and "0 \<le> sint ttl" and "inj toks"
  shows "lease_reach (sys_abs s)"
  using assms(1)
proof (induction rule: reach.induct)
  case (init c)
  have "sys_abs (sys_init c) = lease_init c" by (simp add: sys_abs_def sys_init_def lease_init_def)
  then show ?case by (simp add: lease_reach.l_init)
next
  case (step s s')
  have inv: "sys_inv atomic k ttl toks s" using reach_sys_inv [OF step.hyps(1) assms(2-4)] .
  from step.hyps(2) assms(2) have "sys_step atomic k ttl toks s s'" by blast
  from sys_abs_step [OF this inv assms(3,4)] step.IH show ?case
    by (auto intro: lease_reach.l_step)
qed

lemma exec_action_step: "exec_action atomic k ttl toks a s = Some s' \<Longrightarrow> sys_step atomic k ttl toks s s'"
  by (cases a) (auto split: cpc.splits if_splits intro: sys_step.intros)

lemma exec_actions_reach:
  "reach (sys_step atomic k ttl toks) s \<Longrightarrow> exec_actions atomic k ttl toks as s = Some s'
   \<Longrightarrow> reach (sys_step atomic k ttl toks) s'"
proof (induction as arbitrary: s)
  case Nil
  then show ?case by simp
next
  case (Cons a as)
  then obtain s1 where a: "exec_action atomic k ttl toks a s = Some s1"
    and r: "exec_actions atomic k ttl toks as s1 = Some s'"
    by (auto split: option.splits)
  from Cons.prems(1) exec_action_step [OF a] have "reach (sys_step atomic k ttl toks) s1" by (rule reach.step)
  then show ?case using r by (rule Cons.IH)
qed

lemma exec_action_timely:
  "exec_action False k ttl toks a s = Some s' \<Longrightarrow> timely_action a s \<Longrightarrow> timely s s'"
  by (cases a) (auto simp: timely_def split: cpc.splits if_splits)

lemma exec_timely_reach:
  "reach (\<lambda>s s'. sys_step False k ttl toks s s' \<and> timely s s') s \<Longrightarrow> exec_timely k ttl toks as s = Some s'
   \<Longrightarrow> reach (\<lambda>s s'. sys_step False k ttl toks s s' \<and> timely s s') s'"
proof (induction as arbitrary: s)
  case Nil
  then show ?case by simp
next
  case (Cons a as)
  then obtain s1 where t: "timely_action a s" and a: "exec_action False k ttl toks a s = Some s1"
    and r: "exec_timely k ttl toks as s1 = Some s'"
    by (auto split: option.splits if_splits)
  have "sys_step False k ttl toks s s1 \<and> timely s s1"
    using exec_action_step [OF a] exec_action_timely [OF a t] by blast
  with Cons.prems(1) have "reach (\<lambda>s s'. sys_step False k ttl toks s s' \<and> timely s s') s1"
    by (rule reach.step)
  then show ?case using r by (rule Cons.IH)
qed

text \<open>C1: With the code's release, whose \<open>Get\<close> and \<open>Delete\<close> are separate steps, the
  state after \<open>race_run\<close> is reachable and two distinct clients hold unexpired handles
  of the same key: a release delayed after its \<open>Get\<close> deletes the next owner's record.\<close>

theorem release_race:
  "\<exists>s. reach (sys_step False ''job'' 10 (\<lambda>i. replicate i 0)) s \<and> active s 1 \<and> active s 2"
proof -
  have "\<exists>s. exec_actions False ''job'' 10 (\<lambda>i. replicate i 0) race_run (sys_init 0) = Some s \<and> active s 1 \<and> active s 2"
    by (simp add: race_run_def sys_init_def live_def stored_def acq_until_def active_def go_simps time_Sub_def sat_int64_def)
  then show ?thesis using exec_actions_reach reach.init by blast
qed

text \<open>Liveness: the lock never stays taken. Whatever the state, an idle client can wait
  until the stored record has expired, then acquire.\<close>

lemma acq_until_now: "acq_until ttl c c = c + sint ttl"
  by (simp add: acq_until_def time_Sub_def sat_int64_def go_simps)

lemma wait_expired: "\<exists>d. 0 \<le> d \<and> \<not> live (s\<lparr>clock := clock s + d\<rparr>)"
proof (cases "st s")
  case None
  then show ?thesis by (auto simp: live_def)
next
  case (Some r)
  obtain v e where "r = (v, e)" by (cases r)
  with Some show ?thesis
    by (intro exI [of _ "max 0 (e + 1 - clock s)"]) (auto simp: live_def)
qed

text \<open>C9: From any state, with a positive TTL, an idle client has a sequence of steps
  (waiting past the stored record's expiry, then \<open>start\<close>, \<open>set_created\<close> and
  \<open>acquired\<close>) after which it holds an unexpired handle, whatever the other clients hold.\<close>

theorem acquire_progress:
  assumes "cl s i = Idle" and "0 < sint ttl"
  shows "\<exists>s'. (sys_step a k ttl toks)\<^sup>*\<^sup>* s s' \<and> active s' i"
proof -
  obtain d where d: "0 \<le> d" and nl: "\<not> live (s\<lparr>clock := clock s + d\<rparr>)"
    using wait_expired by blast
  define s1 where "s1 = s\<lparr>clock := clock s + d\<rparr>"
  define s2 where "s2 = s1\<lparr>cl := (cl s1)(i := Setting (clock s1))\<rparr>"
  define s3 where "s3 = s2\<lparr>st := Some (toks i, clock s2 + sint ttl), cl := (cl s2)(i := Created (clock s1))\<rparr>"
  define h where "h = \<lparr>key = k, lvalue = toks i, until = acq_until ttl (clock s1) (clock s3), unlocked = False\<rparr>"
  define s4 where "s4 = s3\<lparr>cl := (cl s3)(i := Holding h)\<rparr>"
  have 1: "sys_step a k ttl toks s s1"
    unfolding s1_def using d by (rule sys_step.tick)
  have 2: "sys_step a k ttl toks s1 s2"
    unfolding s2_def using assms(1) by (intro sys_step.start) (simp add: s1_def)
  have 3: "sys_step a k ttl toks s2 s3"
    unfolding s3_def using nl by (intro sys_step.set_created) (simp_all add: s2_def s1_def)
  have c: "clock s3 = clock s1" by (simp add: s3_def s2_def)
  have b: "time_Before (clock s3) (acq_until ttl (clock s1) (clock s3))"
    using assms(2) by (simp add: c acq_until_now go_simps)
  have 4: "sys_step a k ttl toks s3 s4"
    unfolding s4_def h_def using b by (intro sys_step.acquired) (simp add: s3_def)
  have "active s4 i"
    using assms(2) by (simp add: active_def s4_def h_def c acq_until_now go_simps)
  moreover have "(sys_step a k ttl toks)\<^sup>*\<^sup>* s s4"
    using 1 2 3 4 by (meson rtranclp.rtrancl_refl rtranclp.rtrancl_into_rtrancl)
  ultimately show ?thesis by blast
qed

text \<open>One successful attempt of an idle client is the steps \<open>start\<close>, \<open>set_created\<close>,
  \<open>acquired\<close>, ending with the client holding exactly the handle the attempt returned.\<close>

lemma lock_attempt_steps:
  assumes "cl s i = Idle" and "lock_attempt sys_clk sys_driver k ttl (toks i) s = (Done (Inr h), s1)"
  shows "(sys_step a k ttl toks)\<^sup>*\<^sup>* s (s1\<lparr>cl := (cl s)(i := Holding h)\<rparr>)"
proof -
  have nl: "\<not> live s" and s1: "s1 = s\<lparr>st := Some (toks i, clock s + sint ttl)\<rparr>"
    and h: "h = \<lparr>key = k, lvalue = toks i, until = acq_until ttl (clock s) (clock s), unlocked = False\<rparr>"
    and b: "time_Before (clock s) (acq_until ttl (clock s) (clock s))"
    using assms(2)
    by (auto simp: lock_attempt_def sys_driver_def sys_clk_def acq_until_def Let_def split: if_splits)
  define sA where "sA = s\<lparr>cl := (cl s)(i := Setting (clock s))\<rparr>"
  define sB where "sB = sA\<lparr>st := Some (toks i, clock sA + sint ttl), cl := (cl sA)(i := Created (clock s))\<rparr>"
  have 1: "sys_step a k ttl toks s sA"
    unfolding sA_def using assms(1) by (rule sys_step.start)
  have 2: "sys_step a k ttl toks sA sB"
    unfolding sB_def using nl by (intro sys_step.set_created) (simp_all add: sA_def)
  have 3: "sys_step a k ttl toks sB (sB\<lparr>cl := (cl sB)(i := Holding
      \<lparr>key = k, lvalue = toks i, until = acq_until ttl (clock s) (clock sB), unlocked = False\<rparr>)\<rparr>)"
    using b by (intro sys_step.acquired) (simp_all add: sA_def sB_def)
  have "sB\<lparr>cl := (cl sB)(i := Holding
      \<lparr>key = k, lvalue = toks i, until = acq_until ttl (clock s) (clock sB), unlocked = False\<rparr>)\<rparr>
      = s1\<lparr>cl := (cl s)(i := Holding h)\<rparr>"
    by (simp add: sA_def sB_def s1 h)
  with 1 2 3 show ?thesis
    by (metis rtranclp.rtrancl_refl rtranclp.rtrancl_into_rtrancl)
qed

text \<open>Sleeping is time passing.\<close>

lemma sleep_steps: "(sys_step a k ttl toks)\<^sup>*\<^sup>* s (time_Sleep sys_clk d s)"
  by (auto simp: sys_clk_def intro!: r_into_rtranclp sys_step.tick)

lemma sleep_cl [simp]: "cl (time_Sleep sys_clk d s) = cl s"
  by (simp add: sys_clk_def)

text \<open>An attempt that finds the key taken leaves the shared state as it was.\<close>

lemma lock_attempt_Retry_state:
  "lock_attempt sys_clk sys_driver k ttl v s = (Retry, s2) \<Longrightarrow> s2 = s"
  by (auto simp: lock_attempt_def sys_driver_def Let_def split: if_splits)

lemma Lock_loop_steps:
  assumes "Lock_loop clk m k ttl v j s = (Inr h, s1)" and "cl s i = Idle"
    and "storage m = Some sys_driver" and "\<forall>j u. snd (delayFunc m j u) = u"
    and "clk = sys_clk" and "v = toks i"
  shows "(sys_step a k ttl toks)\<^sup>*\<^sup>* s (s1\<lparr>cl := (cl s)(i := Holding h)\<rparr>)"
  using assms
proof (induction clk m k ttl v j s arbitrary: h s1 rule: Lock_loop.induct)
  case (1 clk m k ttl v j s)
  note clk = "1.prems"(5) and v = "1.prems"(6)
  define w1 where "w1 = (if j \<noteq> 0 then (let (d, w0) = delayFunc m j s in time_Sleep clk d w0) else s)"
  have lt: "j < sint (tries m)"
    using "1.prems"(1) by (cases "j < sint (tries m)") (simp_all add: Lock_loop_stop)
  have w1: "(sys_step a k ttl toks)\<^sup>*\<^sup>* s w1 \<and> cl w1 = cl s"
  proof (cases "delayFunc m j s")
    case (Pair d w0)
    then have "w0 = s" using "1.prems"(4) by (metis snd_conv)
    with Pair show ?thesis by (simp add: w1_def clk sleep_steps)
  qed
  obtain r w2 where att: "lock_attempt clk sys_driver k ttl v w1 = (r, w2)"
    by (cases "lock_attempt clk sys_driver k ttl v w1")
  show ?case
  proof (cases r)
    case Retry
    then have "Lock_loop clk m k ttl v (j + 1) w2 = (Inr h, s1)"
      using "1.prems"(1,3) lt att by (simp add: Lock_loop_next w1_def [symmetric])
    moreover have w21: "w2 = w1" using lock_attempt_Retry_state att Retry clk by blast
    ultimately have loop': "Lock_loop clk m k ttl v (j + 1) w2 = (Inr h, s1)" and idle': "cl w2 i = Idle"
      using w1 "1.prems"(2) by simp_all
    have ih: "(sys_step a k ttl toks)\<^sup>*\<^sup>* w2 (s1\<lparr>cl := (cl w2)(i := Holding h)\<rparr>)"
      by (rule "1.IH" [OF lt w1_def "1.prems"(3) att [symmetric] Retry loop' idle' "1.prems"(3-6)])
    have cl1: "cl w1 = cl s" using w1 by simp
    from ih have "(sys_step a k ttl toks)\<^sup>*\<^sup>* w1 (s1\<lparr>cl := (cl s)(i := Holding h)\<rparr>)"
      by (simp only: w21 cl1)
    with w1 show ?thesis by (blast intro: rtranclp_trans)
  next
    case (Done res)
    then have "res = Inr h" and "s1 = w2"
      using "1.prems"(1,3) lt att by (simp_all add: Lock_loop_next w1_def [symmetric])
    with att Done clk v have "lock_attempt sys_clk sys_driver k ttl (toks i) w1 = (Done (Inr h), s1)" by simp
    from lock_attempt_steps [where toks = toks and i = i, OF _ this] w1 "1.prems"(2)
    have "(sys_step a k ttl toks)\<^sup>*\<^sup>* w1 (s1\<lparr>cl := (cl s)(i := Holding h)\<rparr>)" by simp
    with w1 show ?thesis by (blast intro: rtranclp_trans)
  qed
qed

text \<open>C10: Refinement of the whole \<open>Mutex.Lock\<close>: a successful \<open>Lock\<close> of an idle client
  against the store's driver, whose token generator returns the client's token and
  whose delay draws leave the shared state alone, is a run of the system: its sleeps
  are \<open>tick\<close>s, its attempts that find the key taken change nothing, and its last
  attempt is \<open>start\<close>, \<open>set_created\<close>, \<open>acquired\<close>, ending with the client holding
  exactly the returned handle.\<close>

theorem Lock_refines:
  assumes "cl s i = Idle" and "storage m = Some sys_driver" and "genValueFunc m s = (toks i, s)"
    and "\<forall>j u. snd (delayFunc m j u) = u" and "Lock sys_clk m k ttl s = (Inr h, s1)"
  shows "(sys_step a k ttl toks)\<^sup>*\<^sup>* s (s1\<lparr>cl := (cl s)(i := Holding h)\<rparr>)"
  using Lock_loop_steps [where clk = sys_clk and v = "toks i" and j = 0 and a = a] assms by (simp add: Lock_def)

text \<open>C11: A successful \<open>unlock\<close> of a holding client is the two steps \<open>release_get\<close>,
  \<open>release_delete\<close> of the code's system.\<close>

theorem unlock_refines:
  assumes "cl s i = Holding h" and "storage m = Some sys_driver"
    and "unlock sys_clk m h s = (Inr (), h', s')"
  shows "(sys_step False k ttl toks)\<^sup>*\<^sup>* s (s'\<lparr>cl := (cl s)(i := Idle)\<rparr>)"
proof -
  have na: "\<not> time_After (clock s) (until h)" and sv: "stored s = lvalue h" and s': "s' = s\<lparr>st := None\<rparr>"
    using assms(2,3)
    by (auto simp: unlock_def sys_driver_def sys_clk_def Let_def split: if_splits)
  define sA where "sA = s\<lparr>cl := (cl s)(i := Releasing h)\<rparr>"
  have 1: "sys_step False k ttl toks s sA"
    unfolding sA_def using assms(1) na sv by (intro sys_step.release_get) simp_all
  have 2: "sys_step False k ttl toks sA (sA\<lparr>st := None, cl := (cl sA)(i := Idle)\<rparr>)"
    by (rule sys_step.release_delete) (simp add: sA_def)
  have "sA\<lparr>st := None, cl := (cl sA)(i := Idle)\<rparr> = s'\<lparr>cl := (cl s)(i := Idle)\<rparr>"
    by (simp add: sA_def s')
  with 1 2 show ?thesis by (metis rtranclp.rtrancl_refl rtranclp.rtrancl_into_rtrancl)
qed

end
