(* ===== verification/LockWhile.thy ===== *)
theory LockWhile
  imports Mutex "HOL-Library.While_Combinator"
begin

text \<open>
  The retry loop of \<open>Mutex.Lock\<close> (\<open>src/mutex.go\<close>, lines 67--97) kept as a loop:
  \<open>for i := 0; i < int(m.tries); i++ { ... }\<close> is a \<open>while_option\<close> over the state
  \<open>(i, world, returned)\<close>, where \<open>returned\<close> is the value of an early \<open>return\<close> inside
  the body (\<open>None\<close> while the loop goes on). The loop stops from every state, for every
  clock, driver and delay function (\<open>lock_loop_terminates\<close>, by a measure): the
  termination argument of \<open>Mutex.Lock_loop\<close>, stated on the loop as the code writes it.
\<close>

text \<open>The loop condition \<open>i < int(m.tries)\<close>, and no \<open>return\<close> taken yet.\<close>

definition lock_cond :: "('w, 'e) Mutex \<Rightarrow> int \<times> 'w \<times> ('e lock_error + locked) option \<Rightarrow> bool" where
  "lock_cond m = (\<lambda>(i, w, r). r = None \<and> i < sint (tries m))"

text \<open>One pass of the body, lines 68--94, with \<open>i++\<close> when it does not return.\<close>

definition lock_body ::
  "'w go_clock \<Rightarrow> ('w, 'e) Mutex \<Rightarrow> string \<Rightarrow> duration \<Rightarrow> bytes
     \<Rightarrow> int \<times> 'w \<times> ('e lock_error + locked) option \<Rightarrow> int \<times> 'w \<times> ('e lock_error + locked) option" where
  "lock_body clk m k ttl val = (\<lambda>(i, w, r).
     let w1 = (if i \<noteq> 0 then (let (d, w0) = delayFunc m i w in time_Sleep clk d w0) else w)
     in case storage m of
          None \<Rightarrow> (i, w1, Some (Inl (Panic nil_deref)))
        | Some drv \<Rightarrow>
            (case lock_attempt clk drv k ttl val w1 of
               (Retry, w2) \<Rightarrow> (i + 1, w2, None)
             | (Done res, w2) \<Rightarrow> (i, w2, Some res)))"

section \<open>Termination\<close>

text \<open>What the loop has left to do: the attempts that remain, and none once a value
  was returned.\<close>

lemma lock_body_decreases:
  assumes "lock_cond m s"
  shows "(case lock_body clk m k ttl val s of (i', w', r') \<Rightarrow> (case r' of None \<Rightarrow> Suc (nat (sint (tries m) - i')) | Some _ \<Rightarrow> 0))
       < (case s of (i, w, r) \<Rightarrow> (case r of None \<Rightarrow> Suc (nat (sint (tries m) - i)) | Some _ \<Rightarrow> 0))"
  using assms
  by (auto simp: lock_cond_def lock_body_def Let_def split: prod.splits option.splits attempt.splits)

text \<open>C12: The loop of \<open>Mutex.Lock\<close> stops from every state, for every clock, driver,
  delay function and number of tries: \<open>while_option\<close> never yields \<open>None\<close>.\<close>

theorem lock_loop_terminates:
  "\<exists>t. while_option (lock_cond m) (lock_body clk m k ttl val) s = Some t"
  using measure_while_option_Some [where P = "\<lambda>_. True" and b = "lock_cond m"
      and c = "lock_body clk m k ttl val" and s = s
      and f = "\<lambda>(i, w, r). case r of None \<Rightarrow> Suc (nat (sint (tries m) - i)) | Some _ \<Rightarrow> 0"]
    lock_body_decreases [of m _ clk k ttl val]
  by (auto split: prod.splits)

end
