(* ===== verification/Spec2Isabelle.thy ===== *)
theory Spec2Isabelle
  imports MemStore System LockWhile
begin

text \<open>
  \<^bold>\<open>A verified model of the locker package.\<close>

  The repository (\<open>src/\<close>) is a Go package \<open>locker\<close>: a mutual-exclusion lock over
  an external key-value store. \<open>Mutex.Lock(key, ttl)\<close> generates an ownership token,
  tries up to \<open>m.tries\<close> times to create the key in the store with that token
  (sleeping \<open>m.delayFunc(i)\<close> between attempts), shrinks the TTL by the latency of the
  successful call, and returns a closure that releases the lock; the release
  (\<open>Mutex.unlock\<close>) checks the handle's flag and expiry, reads the key back and
  deletes it only when it still holds the token. The parts and the theories that
  model them, in import order:

  \<^item> \<open>Prelude\<close>: Go's \<open>[]byte\<close>, \<open>time.Duration\<close> (a \<open>64 word\<close>, read with \<open>sint\<close>:
    duration arithmetic wraps), \<open>time.Time\<close> on the monotonic clock (\<open>int\<close>
    nanoseconds), \<open>Time.Sub\<close> (saturating), \<open>Time.Add\<close>, \<open>Before\<close>, \<open>After\<close>, and the
    word lemmas; \<open>adjusted_expiry\<close> is the arithmetic core of \<open>Lock\<close>.
  \<^item> \<open>Errors\<close> (\<open>src/errors.go\<close>): the sentinel errors, the three wrapped storage
    errors of \<open>src/mutex.go\<close> with the messages they print (the token as \<open>fmt\<close>'s
    \<open>%v\<close> prints a \<open>[]byte\<close>), and Go panics as values.
  \<^item> \<open>Mutex\<close> (\<open>src/mutex.go\<close>): the driver interface \<open>mutexStorageDriver\<close> and the
    clock as records of functions over an abstract world \<open>'w\<close> (each call returns its
    result and the next world, so the order of effects is the code's); the \<open>Mutex\<close>
    and \<open>locked\<close> structs as records; \<open>Lock\<close> as \<open>lock_attempt\<close> (one iteration) inside
    \<open>Lock_loop\<close> (the \<open>for\<close> loop over \<open>i < int(m.tries)\<close>, a \<open>function\<close> terminating
    by the measure \<open>int(m.tries) - i\<close>); \<open>unlock\<close> returns the handle it updates.
    Its lemmas hold for every driver and clock: what a handle is made of, its exact
    expiry, contention, and the at-most-once, ownership-checked release.
  \<^item> \<open>Utils\<close> (\<open>src/utils.go\<close>): \<open>GenEmptyValue\<close>, \<open>defaultGenValue\<close>,
    \<open>defaultDelayFunc\<close> over an interface record for \<open>math/rand\<close>; bounds of the delay,
    its exact value with the 64-bit wrap-around, and its mean over a uniform draw.
  \<^item> \<open>Options\<close> (\<open>src/mutex_option.go\<close> and \<open>New\<close>): options as functions on the
    record, applied left to right; the nil-driver panic; the resulting \<open>tries\<close>.
  \<^item> \<open>MemStore\<close>: the repository has no storage driver, so one is modelled from the
    driver contract (section 6 of the specification): an in-memory store with
    expiring records, request and reply latencies, and a failure mode. Composed with
    \<open>Lock\<close>, it shows that a returned handle never outlives its store record.
  \<^item> \<open>LockWhile\<close>: the retry loop of \<open>Lock\<close> kept as a loop (\<open>while_option\<close> of
    \<open>HOL-Library.While_Combinator\<close> over the counter, the world and the value of an
    early \<open>return\<close>), and its termination from every state.
  \<^item> \<open>Lease\<close>: the abstract specification the package promises, independent of
    the code: a lock on one key granted to clients as leases, one live lease at a
    time (\<open>lease_exclusive\<close>).
  \<^item> \<open>System\<close>: several clients sharing one key of a store (section 5 of the
    specification) as an inductive step relation \<open>sys_step\<close>, one rule per point of
    \<open>Lock\<close> and \<open>unlock\<close> where a client reads the clock or calls the store (a failing
    \<open>Set\<close> or \<open>Delete\<close> included), with time passing freely between steps; \<open>reach\<close>
    is the set of states reachable by a given step relation, and \<open>exec_action\<close>
    replays concrete interleavings.
  \<^item> this theory: a concrete world and \<open>Mutex\<close> over the in-memory store, a behaviour
    of \<open>WithTries\<close> at the edge of the \<open>int\<close> range, and a witness for every theorem
    with hypotheses, evaluated by \<open>simp\<close> (with the guarded unfolding
    \<open>Lock_loop_next\<close>).

  What the lemmas show. Between clients (\<open>System\<close>): the code's release can be
  interleaved between its \<open>Get\<close> and its \<open>Delete\<close>, and then a release delayed past
  its own expiry deletes the next owner's record, so a third client acquires while
  the second still holds the lock (\<open>release_race\<close>); this late \<open>Delete\<close> is the only
  cause: with a non-negative TTL and distinct tokens, mutual exclusion holds for the
  code's release in every execution where no client deletes after its handle expired
  (\<open>mutual_exclusion_timely\<close>), and in those executions, as in every execution of a
  release that reads and deletes in one step, the system refines the lease
  specification (\<open>sys_refines_lease\<close>): every step is a step of the specification or
  invisible to it. An idle client can always acquire once the stored record expired
  (\<open>acquire_progress\<close>), and \<open>Lock\<close> and \<open>unlock\<close> over a driver of the shared state are
  sequences of system steps, the whole of \<open>Lock\<close> with its retries and sleeps
  included (\<open>Lock_refines\<close>, \<open>unlock_refines\<close>).
  For any driver (\<open>Mutex\<close>): \<open>Lock\<close> calls \<open>Set\<close> at most \<open>int(m.tries)\<close> times, and
  exactly so often under contention (\<open>Lock_set_calls\<close>, \<open>Lock_contention_set_calls\<close>);
  a storage error ends it at once with the wrapped error (\<open>Lock_store_error\<close>); its
  loop as written stops from every state (\<open>lock_loop_terminates\<close>);
  a handle returned by \<open>Lock\<close> is bound to the key and the single generated token and
  is active on return; for a non-negative TTL and a clock that does not run
  backwards over \<open>Set\<close>, its expiry is exactly TTL after the successful \<open>Set\<close> was
  issued (\<open>Lock_expiry\<close>), so never later than TTL after the store accepted the
  write, and over the in-memory store the record outlives the handle by the store's
  request latency (\<open>Lock_within_store_record\<close>, for a client clock off the store's by
  any constant); when the call took the whole TTL the attempt fails with
  \<open>ErrExpired\<close> though the record exists; a release deletes only after reading back
  the handle's own token (\<open>unlock_delete_guarded\<close>, \<open>unlock_success\<close>), succeeds at
  most once, and fails without side effects when expired or already released.
  At the edges of the integer ranges: a TTL of \<open>math.MinInt64\<close> wraps in
  \<open>ttl - now.Sub(start)\<close>, and any attempt whose \<open>Set\<close> took time returns a handle
  valid for up to 292 years while the store was asked for a negative TTL
  (\<open>lock_attempt_min_ttl\<close>); \<open>WithTries(t)\<close> with \<open>t \<ge> 2^63\<close> makes
  \<open>int(m.tries)\<close> negative and \<open>Lock\<close> never tries (\<open>huge_tries_never_attempt\<close>);
  the default delay is exactly 100 ms at the first retry, and otherwise the draw times
  100 ms reduced into the \<open>int64\<close> range, which is zero for a draw of \<open>2^56\<close>
  (\<open>defaultDelayFunc_wrap\<close>).

  Bounds and fuel: no fuel is used; the retry loop is total by its measure
  (\<open>int(m.tries) - i\<close>, and zero once a value was returned). The
  in-range conditions (\<open>92233720368\<close> for the delay's draw, \<open>2^63\<close> for \<open>tries\<close>) are
  exactly where Go's 64-bit arithmetic stops being exact. The system model has no
  bound on the number of clients or steps: its results hold for every reachable state.

  Not modelled: the probabilistic quality of \<open>math/rand\<close> (uniqueness of tokens is a
  probability statement; the model treats the source as an arbitrary function within
  its contract, and the system model assumes distinct tokens); the repository's tests
  (\<open>src/utils_test.go\<close>: the assertions of \<open>Test_defaultDelayFunc\<close> are instances of
  \<open>defaultDelayFunc_first_retry\<close> and \<open>defaultDelayFunc_bounds\<close>, and
  \<open>Test_genValue\<close> checks randomness); wall clock versus monotonic clock
  differences; clocks per client in the system model (a constant skew is modelled for
  one \<open>Lock\<close> over the in-memory store: \<open>skew_clk\<close>); several keys in the system
  model (keys are independent in the code); two goroutines calling the same release
  closure (the system model gives each handle to one client); and a real networked
  driver.\<close>

section \<open>A concrete world\<close>

definition start_world :: mem_world where
  "start_world = \<lparr>mem_records = Map.empty, mem_clock = 0, mem_next_id = 1, mem_lat_req = 1000000,
     mem_lat_resp = 1000000, mem_down = False, mem_seed = 7, mem_set_calls = 0\<rparr>"

text \<open>The \<open>Mutex\<close> that \<open>New\<close> builds over the in-memory driver without options.\<close>

definition locker :: "(mem_world, string) Mutex" where
  "locker = \<lparr>storage = Some mem_driver, tries = 1, genValueFunc = defaultGenValue mem_rand,
             delayFunc = defaultDelayFunc mem_rand\<rparr>"

text \<open>A store in which another owner holds \<open>job:42\<close> until 150 ms.\<close>

definition held_world :: mem_world where
  "held_world = start_world\<lparr>mem_records := [''job:42'' \<mapsto> (99, [9], 150000000)]\<rparr>"

text \<open>A driver whose \<open>Set\<close> always finds the key taken (and counts the call).\<close>

definition busy_driver :: "(mem_world, string) mutexStorageDriver" where
  "busy_driver = mem_driver\<lparr>drv_Set := (\<lambda>k v t w. ((0, False, None), w\<lparr>mem_set_calls := Suc (mem_set_calls w)\<rparr>))\<rparr>"

text \<open>A store that is down: every call fails.\<close>

definition down_world :: mem_world where
  "down_world = start_world\<lparr>mem_down := True\<rparr>"

text \<open>A handle of \<open>job:42\<close> with another token than the one \<open>held_world\<close> stores.\<close>

definition other_handle :: locked where
  "other_handle = \<lparr>key = ''job:42'', lvalue = [1], until = 10000000000, unlocked = False\<rparr>"

text \<open>For the system model: the clients' tokens, and the state in which client 1 holds
  \<open>job\<close> (TTL 10 ns) with the handle \<open>sys_handle\<close>, released through \<open>sys_mutex\<close>.\<close>

definition sys_tokens :: "nat \<Rightarrow> bytes" where
  "sys_tokens i = replicate i 0"

definition sys_handle :: locked where
  "sys_handle = \<lparr>key = ''job'', lvalue = [0], until = 10, unlocked = False\<rparr>"

definition sys_held :: sys where
  "sys_held = \<lparr>st = Some ([0], 10), clock = 0, cl = (\<lambda>_. Idle)(1 := Holding sys_handle)\<rparr>"

definition sys_mutex :: "(sys, string) Mutex" where
  "sys_mutex = \<lparr>storage = Some sys_driver, tries = 1, genValueFunc = (\<lambda>s. (sys_tokens 1, s)),
                delayFunc = (\<lambda>i s. (0, s))\<rparr>"

lemmas run_simps = Lock_def Lock_loop_next Lock_loop_stop lock_attempt_def unlock_def mem_defs
  time_Sub_def sat_int64_def go_simps defaultGenValue_def defaultDelayFunc_def mem_rand_def Let_def
  locker_def start_world_def held_world_def down_world_def

lemma New_locker: "New mem_rand (Some mem_driver) [] = Inr locker"
  by (simp add: New_def locker_def)

lemma locker_storage: "storage locker = Some mem_driver"
  by (simp add: locker_def)

lemma sys_tokens_inj: "inj sys_tokens"
  by (rule injI) (metis length_replicate sys_tokens_def)

section \<open>Edge behaviours of the code\<close>

text \<open>C22: \<open>WithTries\<close> clamps only from below: with \<open>t \<ge> 2^63\<close> the conversion
  \<open>int(m.tries)\<close> is negative, and \<open>Lock\<close> fails with \<open>ErrAlreadyTaken\<close> without a
  single call to the store.\<close>

theorem huge_tries_never_attempt:
  assumes "New rnd (Some d) [WithTries t] = Inr m" and "2 ^ 63 \<le> unat t"
  shows "Lock clk m k ttl w = (Inl ErrAlreadyTaken, snd (defaultGenValue rnd w))"
proof -
  have "tries m = max 1 t" and "genValueFunc m = defaultGenValue rnd"
    using assms(1) by (auto simp: New_def WithTries_clamp split: if_splits)
  moreover have "sint (max 1 t) \<le> 0"
    using sint_neg_if_large [OF assms(2)] assms(2) by (auto simp: max_def word_one_le_iff)
  ultimately show ?thesis by (simp add: Lock_no_attempt)
qed

section \<open>Witnesses\<close>

text \<open>Each theorem with hypotheses applied where its hypotheses hold, on the concrete
  world above.\<close>

theorem Lock_expiry_witness:
  "\<exists>l w'. Lock mem_clk locker ''job:42'' 5000000000 start_world = (Inr l, w')
     \<and> (\<exists>u x. drv_Set mem_driver ''job:42'' (lvalue l) 5000000000 u = ((x, True, None), w')
              \<and> until l = time_Now mem_clk u + sint (5000000000 :: duration))"
proof -
  have "\<exists>l w'. Lock mem_clk locker ''job:42'' 5000000000 start_world = (Inr l, w')"
    by (simp add: run_simps)
  then obtain l w' where ev: "Lock mem_clk locker ''job:42'' 5000000000 start_world = (Inr l, w')"
    by blast
  have "\<exists>u x. drv_Set mem_driver ''job:42'' (lvalue l) 5000000000 u = ((x, True, None), w')
              \<and> until l = time_Now mem_clk u + sint (5000000000 :: duration)"
    by (rule Lock_expiry [OF ev locker_storage _ mem_Set_monotone]) simp
  with ev show ?thesis by blast
qed

theorem unlock_delete_guarded_witness:
  "\<exists>l w1. Lock mem_clk locker ''job:42'' 5000000000 start_world = (Inr l, w1)
     \<and> (case unlock mem_clk locker l w1 of (r, l', w') \<Rightarrow>
          w' = w1 \<or> w' = snd (drv_Get mem_driver (key l) w1) \<or>
          (\<exists>x w2. drv_Get mem_driver (key l) w1 = ((x, lvalue l, None), w2)
                  \<and> w' = snd (drv_Delete mem_driver (key l) w2)))"
proof -
  have "\<exists>l w1. Lock mem_clk locker ''job:42'' 5000000000 start_world = (Inr l, w1)"
    by (simp add: run_simps)
  then obtain l w1 where ev: "Lock mem_clk locker ''job:42'' 5000000000 start_world = (Inr l, w1)"
    by blast
  obtain r l' w' where un: "unlock mem_clk locker l w1 = (r, l', w')"
    by (cases "unlock mem_clk locker l w1") auto
  from unlock_delete_guarded [OF locker_storage un] ev un show ?thesis by auto
qed

theorem unlock_success_witness:
  "\<exists>l w1 l' w'. Lock mem_clk locker ''job:42'' 5000000000 start_world = (Inr l, w1)
     \<and> unlock mem_clk locker l w1 = (Inr (), l', w')
     \<and> \<not> unlocked l \<and> time_Now mem_clk w1 \<le> until l
     \<and> (\<exists>x y w2. drv_Get mem_driver (key l) w1 = ((x, lvalue l, None), w2)
                 \<and> drv_Delete mem_driver (key l) w2 = ((y, None), w'))"
proof -
  have "\<exists>l w1 l' w'. Lock mem_clk locker ''job:42'' 5000000000 start_world = (Inr l, w1)
          \<and> unlock mem_clk locker l w1 = (Inr (), l', w')"
    by (simp add: run_simps)
  then obtain l w1 l' w' where ev: "Lock mem_clk locker ''job:42'' 5000000000 start_world = (Inr l, w1)"
      and un: "unlock mem_clk locker l w1 = (Inr (), l', w')"
    by blast
  from unlock_success [OF locker_storage un] ev un show ?thesis by blast
qed

theorem Lock_handle_active_witness:
  "\<exists>l w'. Lock mem_clk locker ''job:42'' 5000000000 start_world = (Inr l, w')
     \<and> key l = ''job:42'' \<and> lvalue l = fst (genValueFunc locker start_world)
     \<and> \<not> unlocked l \<and> time_Now mem_clk w' < until l"
proof -
  have "\<exists>l w'. Lock mem_clk locker ''job:42'' 5000000000 start_world = (Inr l, w')"
    by (simp add: run_simps)
  then obtain l w' where ev: "Lock mem_clk locker ''job:42'' 5000000000 start_world = (Inr l, w')"
    by blast
  from Lock_handle_active [OF ev locker_storage] ev show ?thesis by blast
qed

theorem lock_attempt_created_witness:
  "\<exists>w1. drv_Set mem_driver ''job:42'' [1] 5000000000 start_world = ((1, True, None), w1)
     \<and> time_Now mem_clk start_world \<le> time_Now mem_clk w1 \<and> 0 \<le> sint (5000000000 :: duration)
     \<and> lock_attempt mem_clk mem_driver ''job:42'' 5000000000 [1] start_world =
         (Done (Inr \<lparr>key = ''job:42'', lvalue = [1], until = 5000000000, unlocked = False\<rparr>), w1)"
proof -
  have "\<exists>w1. drv_Set mem_driver ''job:42'' [1] 5000000000 start_world = ((1, True, None), w1)"
    by (simp add: run_simps)
  then obtain w1 where set: "drv_Set mem_driver ''job:42'' [1] 5000000000 start_world = ((1, True, None), w1)"
    by blast
  have mono: "time_Now mem_clk start_world \<le> time_Now mem_clk w1"
    using mem_Set_monotone set by (metis snd_conv)
  have now: "time_Now mem_clk w1 = 2000000"
    using mem_Set_clock [of "''job:42''" "[1]" 5000000000 start_world] set
    by (simp add: mem_driver_def mem_clk_def start_world_def)
  have "0 \<le> sint (5000000000 :: duration)" by simp
  from lock_attempt_created [OF set mono this] set mono now show ?thesis
    by (simp add: start_world_def mem_clk_def)
qed

theorem Lock_contention_witness:
  "storage (locker\<lparr>storage := Some busy_driver\<rparr>) = Some busy_driver
   \<and> (\<forall>v u. \<exists>x. fst (drv_Set busy_driver ''job:42'' v 5000000000 u) = (x, False, None))
   \<and> fst (Lock mem_clk (locker\<lparr>storage := Some busy_driver\<rparr>) ''job:42'' 5000000000 start_world)
       = Inl ErrAlreadyTaken"
proof -
  have st: "storage (locker\<lparr>storage := Some busy_driver\<rparr>) = Some busy_driver" by simp
  have busy: "\<forall>v u. \<exists>x. fst (drv_Set busy_driver ''job:42'' v 5000000000 u) = (x, False, None)"
    by (simp add: busy_driver_def)
  from Lock_contention [OF st busy] st busy show ?thesis by blast
qed

theorem unlock_twice_witness:
  "\<exists>l w1 l' w'. Lock mem_clk locker ''job:42'' 5000000000 start_world = (Inr l, w1)
     \<and> unlock mem_clk locker l w1 = (Inr (), l', w')
     \<and> unlock mem_clk locker l' held_world = (Inl ErrAlreadyUnlocked, l', held_world)"
proof -
  have "\<exists>l w1 l' w'. Lock mem_clk locker ''job:42'' 5000000000 start_world = (Inr l, w1)
          \<and> unlock mem_clk locker l w1 = (Inr (), l', w')"
    by (simp add: run_simps)
  then obtain l w1 l' w' where ev: "Lock mem_clk locker ''job:42'' 5000000000 start_world = (Inr l, w1)"
      and un: "unlock mem_clk locker l w1 = (Inr (), l', w')"
    by blast
  from unlock_twice [OF un, of locker held_world] ev un show ?thesis by blast
qed

theorem unlock_once_witness:
  "\<exists>l w1 l' w'. Lock mem_clk locker ''job:42'' 5000000000 start_world = (Inr l, w1)
     \<and> unlock mem_clk locker l w1 = (Inr (), l', w')
     \<and> (unlocked l' \<longleftrightarrow> unlocked l \<or> Inr () = (Inr () :: string lock_error + unit)) \<and> \<not> unlocked l"
proof -
  have "\<exists>l w1 l' w'. Lock mem_clk locker ''job:42'' 5000000000 start_world = (Inr l, w1)
          \<and> unlock mem_clk locker l w1 = (Inr (), l', w')"
    by (simp add: run_simps)
  then obtain l w1 l' w' where ev: "Lock mem_clk locker ''job:42'' 5000000000 start_world = (Inr l, w1)"
      and un: "unlock mem_clk locker l w1 = (Inr (), l', w')"
    by blast
  from unlock_once [OF un] ev un show ?thesis by blast
qed

theorem unlock_other_owner_witness:
  "\<exists>x res w1. drv_Get mem_driver ''job:42'' held_world = ((x, res, None), w1) \<and> res \<noteq> [1]
     \<and> \<not> unlocked other_handle \<and> time_Now mem_clk held_world \<le> until other_handle
     \<and> unlock mem_clk locker other_handle held_world = (Inl ErrTryUnlockAnother, other_handle, w1)"
proof -
  have "\<exists>w1. drv_Get mem_driver ''job:42'' held_world = ((99, [9], None), w1)"
    by (simp add: run_simps)
  then obtain w1 where get: "drv_Get mem_driver ''job:42'' held_world = ((99, [9], None), w1)"
    by blast
  have h: "\<not> unlocked other_handle" "time_Now mem_clk held_world \<le> until other_handle"
    "[9] \<noteq> lvalue other_handle" "key other_handle = ''job:42''"
    by (simp_all add: other_handle_def mem_clk_def held_world_def start_world_def)
  from unlock_other_owner [OF locker_storage h(1,2), of 99 "[9]" w1] get h show ?thesis
    by (auto simp: other_handle_def)
qed

theorem unlock_expired_witness:
  "\<exists>l' w'. unlock mem_clk locker (other_handle\<lparr>until := 0\<rparr>) (held_world\<lparr>mem_clock := 5\<rparr>) = (Inl ErrExpired, l', w')
     \<and> until (other_handle\<lparr>until := 0\<rparr>) < time_Now mem_clk (held_world\<lparr>mem_clock := 5\<rparr>)
     \<and> l' = other_handle\<lparr>until := 0\<rparr> \<and> w' = held_world\<lparr>mem_clock := 5\<rparr>"
proof -
  have "\<exists>l' w'. unlock mem_clk locker (other_handle\<lparr>until := 0\<rparr>) (held_world\<lparr>mem_clock := 5\<rparr>) = (Inl ErrExpired, l', w')"
    by (simp add: run_simps other_handle_def)
  then obtain l' w' where un: "unlock mem_clk locker (other_handle\<lparr>until := 0\<rparr>) (held_world\<lparr>mem_clock := 5\<rparr>) = (Inl ErrExpired, l', w')"
    by blast
  from unlock_expired [OF un] un show ?thesis by blast
qed

theorem huge_tries_never_attempt_witness:
  "New mem_rand (Some mem_driver) [WithTries (2 ^ 63)] = Inr (locker\<lparr>tries := 2 ^ 63\<rparr>)
   \<and> 2 ^ 63 \<le> unat (2 ^ 63 :: 64 word)
   \<and> Lock mem_clk (locker\<lparr>tries := 2 ^ 63\<rparr>) ''job:42'' 5000000000 start_world
       = (Inl ErrAlreadyTaken, snd (defaultGenValue mem_rand start_world))"
proof -
  have new: "New mem_rand (Some mem_driver) [WithTries (2 ^ 63)] = Inr (locker\<lparr>tries := 2 ^ 63\<rparr>)"
    by (simp add: New_def WithTries_clamp locker_def max_def)
  have big: "2 ^ 63 \<le> unat (2 ^ 63 :: 64 word)" by simp
  from huge_tries_never_attempt [OF new big] new big show ?thesis by blast
qed

theorem New_tries_witness:
  "\<exists>m. New mem_rand (Some mem_driver) (map option_of ([OptTries 5, OptTries 0] :: mem_world opt_req list)) = Inr m
     \<and> storage m = Some mem_driver \<and> tries m = last_tries 1 ([OptTries 5, OptTries 0] :: mem_world opt_req list)
     \<and> tries m \<noteq> 0 \<and> tries m = 1"
proof -
  have "\<exists>m. New mem_rand (Some mem_driver) (map option_of ([OptTries 5, OptTries 0] :: mem_world opt_req list)) = Inr m"
    by (simp add: New_def WithTries_clamp Let_def)
  then obtain m where new: "New mem_rand (Some mem_driver) (map option_of ([OptTries 5, OptTries 0] :: mem_world opt_req list)) = Inr m"
    by blast
  from New_tries [OF new] new show ?thesis by simp
qed

theorem defaultDelayFunc_first_retry_witness:
  "intn_contract mem_rand \<and> (1::int) \<le> 1 \<and> fst (defaultDelayFunc mem_rand 1 start_world) = 100 * Millisecond"
  using defaultDelayFunc_first_retry [of mem_rand 1 start_world] mem_rand_contracts by simp

theorem defaultDelayFunc_bounds_witness:
  "intn_contract mem_rand \<and> (1::int) \<le> 10 \<and> (10::int) \<le> 92233720368
   \<and> 100000000 \<le> sint (fst (defaultDelayFunc mem_rand 10 start_world))
   \<and> sint (fst (defaultDelayFunc mem_rand 10 start_world)) \<le> 900000000"
  using defaultDelayFunc_bounds [of mem_rand 10 start_world] mem_rand_contracts by simp


theorem defaultDelayFunc_wrap_witness:
  "intn_contract \<lparr>rand_Read = (\<lambda>b w. ((int (length b), None), b, w)),
                   rand_Intn = (\<lambda>n w. (min (2 ^ 56) (n - 1), w))\<rparr> \<and> (1::int) \<le> 2 ^ 56 + 1
   \<and> sint (fst (defaultDelayFunc \<lparr>rand_Read = (\<lambda>b w. ((int (length b), None), b, w)),
                                   rand_Intn = (\<lambda>n w. (min (2 ^ 56) (n - 1), w))\<rparr> (2 ^ 56 + 1) ())) = 0"
proof -
  have c: "intn_contract \<lparr>rand_Read = (\<lambda>b w. ((int (length b), None), b, w)),
                   rand_Intn = (\<lambda>n w. (min (2 ^ 56) (n - 1), w))\<rparr>"
    by (auto simp: intn_contract_def min_def)
  show ?thesis using defaultDelayFunc_wrap [OF c, of "2 ^ 56 + 1" "()"] c by simp
qed

theorem lock_attempt_min_ttl_witness:
  "\<exists>x w1. drv_Set mem_driver ''job:42'' [1] (word_of_int int64_min) start_world = ((x, True, None), w1)
     \<and> time_Now mem_clk start_world < time_Now mem_clk w1
     \<and> lock_attempt mem_clk mem_driver ''job:42'' (word_of_int int64_min) [1] start_world
        = (Done (Inr \<lparr>key = ''job:42'', lvalue = [1], until = 9223372036854775808, unlocked = False\<rparr>), w1)"
proof -
  have "\<exists>x w1. drv_Set mem_driver ''job:42'' [1] (word_of_int int64_min) start_world = ((x, True, None), w1)
          \<and> time_Now mem_clk start_world < time_Now mem_clk w1 \<and> time_Now mem_clk w1 = 2000000"
    by (simp add: mem_defs start_world_def Let_def)
  then obtain x w1 where s: "drv_Set mem_driver ''job:42'' [1] (word_of_int int64_min) start_world = ((x, True, None), w1)"
      and c: "time_Now mem_clk start_world < time_Now mem_clk w1" and n: "time_Now mem_clk w1 = 2000000"
    by blast
  have "time_Now mem_clk start_world = 0" by (simp add: mem_clk_def start_world_def)
  with lock_attempt_min_ttl [OF s c] s c n show ?thesis by simp
qed

theorem defaultGenValue_length_witness:
  "read_contract mem_rand \<and> length (fst (defaultGenValue mem_rand start_world)) = 16"
  using defaultGenValue_length [of mem_rand start_world] mem_rand_contracts by (simp add: mem_rand_def)

theorem mutual_exclusion_timely_witness:
  "\<exists>s. reach (\<lambda>s s'. sys_step False ''job'' 10 sys_tokens s s' \<and> timely s s') s \<and> 0 \<le> sint (10 :: duration)
       \<and> inj sys_tokens \<and> active s 2 \<and> active s 2 \<and> (2 :: nat) = 2"
proof -
  have "\<exists>s. exec_timely ''job'' 10 sys_tokens
          [Start 1, SetKey 1, Acquire 1, RelGet 1, RelDelete 1, Start 2, SetKey 2, Acquire 2] (sys_init 0) = Some s
        \<and> active s 2"
    by (simp add: sys_init_def live_def stored_def acq_until_def active_def go_simps time_Sub_def
                  sat_int64_def sys_tokens_def)
  then obtain s where ex: "exec_timely ''job'' 10 sys_tokens
          [Start 1, SetKey 1, Acquire 1, RelGet 1, RelDelete 1, Start 2, SetKey 2, Acquire 2] (sys_init 0) = Some s"
      and a: "active s 2"
    by blast
  have r: "reach (\<lambda>s s'. sys_step False ''job'' 10 sys_tokens s s' \<and> timely s s') s"
    using exec_timely_reach [OF reach.init ex] .
  have "(2 :: nat) = 2" using mutual_exclusion_timely [OF r _ sys_tokens_inj a a] by simp
  with r a sys_tokens_inj show ?thesis by auto
qed

theorem Lock_refines_witness:
  "\<exists>h s1. cl (sys_init 0) 1 = Idle \<and> storage sys_mutex = Some sys_driver
     \<and> genValueFunc sys_mutex (sys_init 0) = (sys_tokens 1, sys_init 0)
     \<and> (\<forall>j u. snd (delayFunc sys_mutex j u) = u)
     \<and> Lock sys_clk sys_mutex ''job'' 10 (sys_init 0) = (Inr h, s1)
     \<and> (sys_step False ''job'' 10 sys_tokens)\<^sup>*\<^sup>* (sys_init 0) (s1\<lparr>cl := (cl (sys_init 0))(1 := Holding h)\<rparr>)"
proof -
  have "\<exists>h s1. Lock sys_clk sys_mutex ''job'' 10 (sys_init 0) = (Inr h, s1)"
    by (simp add: Lock_def Lock_loop_next Lock_loop_stop lock_attempt_def sys_mutex_def sys_driver_def
                  sys_clk_def sys_init_def live_def go_simps time_Sub_def sat_int64_def Let_def)
  then obtain h s1 where ev: "Lock sys_clk sys_mutex ''job'' 10 (sys_init 0) = (Inr h, s1)"
    by blast
  have idle: "cl (sys_init 0) 1 = Idle" by (simp add: sys_init_def)
  have st: "storage sys_mutex = Some sys_driver" by (simp add: sys_mutex_def)
  have gen: "genValueFunc sys_mutex (sys_init 0) = (sys_tokens 1, sys_init 0)" by (simp add: sys_mutex_def)
  have del: "\<forall>j u. snd (delayFunc sys_mutex j u) = u" by (simp add: sys_mutex_def)
  from Lock_refines [where a = False and toks = sys_tokens, OF idle st gen del ev] idle st gen del ev show ?thesis by blast
qed

theorem unlock_refines_witness:
  "\<exists>h' s'. cl sys_held 1 = Holding sys_handle \<and> storage sys_mutex = Some sys_driver
     \<and> unlock sys_clk sys_mutex sys_handle sys_held = (Inr (), h', s')
     \<and> (sys_step False ''job'' 10 sys_tokens)\<^sup>*\<^sup>* sys_held (s'\<lparr>cl := (cl sys_held)(1 := Idle)\<rparr>)"
proof -
  have c: "cl sys_held 1 = Holding sys_handle" and m: "storage sys_mutex = Some sys_driver"
    by (simp_all add: sys_held_def sys_mutex_def)
  have "\<exists>h' s'. unlock sys_clk sys_mutex sys_handle sys_held = (Inr (), h', s')"
    by (simp add: unlock_def sys_mutex_def sys_driver_def sys_clk_def sys_held_def sys_handle_def
                  stored_def go_simps Let_def)
  then obtain h' s' where u: "unlock sys_clk sys_mutex sys_handle sys_held = (Inr (), h', s')"
    by blast
  from unlock_refines [OF c m u] c m u show ?thesis by blast
qed

theorem acquire_progress_witness:
  "cl sys_held 2 = Idle \<and> 0 < sint (10 :: duration)
   \<and> (\<exists>s'. (sys_step False ''job'' 10 sys_tokens)\<^sup>*\<^sup>* sys_held s' \<and> active s' 2)"
proof -
  have i: "cl sys_held 2 = Idle" by (simp add: sys_held_def)
  have t: "0 < sint (10 :: duration)" by simp
  from acquire_progress [where a = False and k = "''job''" and toks = sys_tokens, OF i t] i t
  show ?thesis by blast
qed

theorem Lock_set_calls_witness:
  "storage (locker\<lparr>tries := 3\<rparr>) = Some mem_driver
   \<and> (\<forall>v u. mem_set_calls (snd (drv_Set mem_driver ''job:42'' v 5000000000 u)) = Suc (mem_set_calls u))
   \<and> (\<forall>d u. mem_set_calls (time_Sleep mem_clk d u) = mem_set_calls u)
   \<and> (\<forall>j u. mem_set_calls (snd (delayFunc (locker\<lparr>tries := 3\<rparr>) j u)) = mem_set_calls u)
   \<and> (\<forall>u. mem_set_calls (snd (genValueFunc (locker\<lparr>tries := 3\<rparr>) u)) = mem_set_calls u)
   \<and> mem_set_calls (snd (Lock mem_clk (locker\<lparr>tries := 3\<rparr>) ''job:42'' 5000000000 held_world))
       \<le> mem_set_calls held_world + nat (sint (tries (locker\<lparr>tries := 3\<rparr>)))"
proof -
  have h1: "storage (locker\<lparr>tries := 3\<rparr>) = Some mem_driver" by (simp add: locker_def)
  have h2: "\<forall>v u. mem_set_calls (snd (drv_Set mem_driver ''job:42'' v 5000000000 u)) = Suc (mem_set_calls u)"
    by (simp add: mem_defs Let_def split: option.splits)
  have h3: "\<forall>d u. mem_set_calls (time_Sleep mem_clk d u) = mem_set_calls u"
    by (simp add: mem_clk_def)
  have h4: "\<forall>j u. mem_set_calls (snd (delayFunc (locker\<lparr>tries := 3\<rparr>) j u)) = mem_set_calls u"
    by (simp add: locker_def defaultDelayFunc_def mem_rand_def Let_def)
  have h5: "\<forall>u. mem_set_calls (snd (genValueFunc (locker\<lparr>tries := 3\<rparr>) u)) = mem_set_calls u"
    by (simp add: locker_def defaultGenValue_def mem_rand_def Let_def)
  from Lock_set_calls [OF h1 h2 h3 h4 h5] h1 h2 h3 h4 h5 show ?thesis by blast
qed

theorem Lock_contention_set_calls_witness:
  "storage (locker\<lparr>storage := Some busy_driver, tries := 3\<rparr>) = Some busy_driver
   \<and> (\<forall>v u. mem_set_calls (snd (drv_Set busy_driver ''job:42'' v 5000000000 u)) = Suc (mem_set_calls u))
   \<and> (\<forall>d u. mem_set_calls (time_Sleep mem_clk d u) = mem_set_calls u)
   \<and> (\<forall>j u. mem_set_calls (snd (delayFunc (locker\<lparr>storage := Some busy_driver, tries := 3\<rparr>) j u)) = mem_set_calls u)
   \<and> (\<forall>u. mem_set_calls (snd (genValueFunc (locker\<lparr>storage := Some busy_driver, tries := 3\<rparr>) u)) = mem_set_calls u)
   \<and> (\<forall>v u. \<exists>x. fst (drv_Set busy_driver ''job:42'' v 5000000000 u) = (x, False, None))
   \<and> fst (Lock mem_clk (locker\<lparr>storage := Some busy_driver, tries := 3\<rparr>) ''job:42'' 5000000000 start_world)
       = Inl ErrAlreadyTaken
   \<and> mem_set_calls (snd (Lock mem_clk (locker\<lparr>storage := Some busy_driver, tries := 3\<rparr>) ''job:42'' 5000000000 start_world))
       = mem_set_calls start_world + 3"
proof -
  have h1: "storage (locker\<lparr>storage := Some busy_driver, tries := 3\<rparr>) = Some busy_driver" by simp
  have h2: "\<forall>v u. mem_set_calls (snd (drv_Set busy_driver ''job:42'' v 5000000000 u)) = Suc (mem_set_calls u)"
    by (simp add: busy_driver_def)
  have h3: "\<forall>d u. mem_set_calls (time_Sleep mem_clk d u) = mem_set_calls u"
    by (simp add: mem_clk_def)
  have h4: "\<forall>j u. mem_set_calls (snd (delayFunc (locker\<lparr>storage := Some busy_driver, tries := 3\<rparr>) j u)) = mem_set_calls u"
    by (simp add: locker_def defaultDelayFunc_def mem_rand_def Let_def)
  have h5: "\<forall>u. mem_set_calls (snd (genValueFunc (locker\<lparr>storage := Some busy_driver, tries := 3\<rparr>) u)) = mem_set_calls u"
    by (simp add: locker_def defaultGenValue_def mem_rand_def Let_def)
  have h6: "\<forall>v u. \<exists>x. fst (drv_Set busy_driver ''job:42'' v 5000000000 u) = (x, False, None)"
    by (simp add: busy_driver_def)
  have "fst (Lock mem_clk (locker\<lparr>storage := Some busy_driver, tries := 3\<rparr>) ''job:42'' 5000000000 start_world)
       = Inl ErrAlreadyTaken
   \<and> mem_set_calls (snd (Lock mem_clk (locker\<lparr>storage := Some busy_driver, tries := 3\<rparr>) ''job:42'' 5000000000 start_world))
       = mem_set_calls start_world + nat (sint (tries (locker\<lparr>storage := Some busy_driver, tries := 3\<rparr>)))"
    by (rule Lock_contention_set_calls [OF h1 h2 h3 h4 h5 h6])
  with h1 h2 h3 h4 h5 h6 show ?thesis by simp
qed

theorem Lock_store_error_witness:
  "\<exists>x ok e w1. storage locker = Some mem_driver \<and> 0 < sint (tries locker)
     \<and> drv_Set mem_driver ''job:42'' (fst (genValueFunc locker down_world)) 5000000000
           (snd (genValueFunc locker down_world)) = ((x, ok, Some e), w1)
     \<and> Lock mem_clk locker ''job:42'' 5000000000 down_world
         = (Inl (ErrStoreKey ''job:42'' (fst (genValueFunc locker down_world)) e), w1)"
proof -
  have "\<exists>x e w1. drv_Set mem_driver ''job:42'' (fst (genValueFunc locker down_world)) 5000000000
           (snd (genValueFunc locker down_world)) = ((x, False, Some e), w1)"
    by (simp add: run_simps)
  then obtain x e w1 where set: "drv_Set mem_driver ''job:42'' (fst (genValueFunc locker down_world)) 5000000000
           (snd (genValueFunc locker down_world)) = ((x, False, Some e), w1)"
    by blast
  have t: "0 < sint (tries locker)" by (simp add: locker_def)
  from Lock_store_error [OF locker_storage t set] locker_storage t set show ?thesis by blast
qed

theorem Lock_within_store_record_witness:
  "\<exists>l w'. Lock (skew_clk 3000000) locker ''job:42'' 5000000000 start_world = (Inr l, w')
     \<and> storage locker = Some mem_driver \<and> 0 \<le> sint (5000000000 :: duration)
     \<and> (\<exists>i. mem_records w' ''job:42'' = Some (i, lvalue l, until l - 3000000 + int (mem_lat_req w'))
          \<and> mem_clock w' + 3000000 < until l)"
proof -
  have "\<exists>l w'. Lock (skew_clk 3000000) locker ''job:42'' 5000000000 start_world = (Inr l, w')"
    by (simp add: run_simps skew_clk_def)
  then obtain l w' where ev: "Lock (skew_clk 3000000) locker ''job:42'' 5000000000 start_world = (Inr l, w')"
    by blast
  have t: "0 \<le> sint (5000000000 :: duration)" by simp
  from Lock_within_store_record [OF ev locker_storage t] ev locker_storage t show ?thesis by blast
qed

theorem sys_refines_lease_witness:
  "\<exists>s. reach (sys_step True ''job'' 10 sys_tokens) s
     \<and> (\<forall>s s'. sys_step True ''job'' 10 sys_tokens s s'
            \<longrightarrow> sys_step True ''job'' 10 sys_tokens s s' \<and> (\<not> True \<longrightarrow> timely s s'))
     \<and> 0 \<le> sint (10 :: duration) \<and> inj sys_tokens \<and> active s 1 \<and> lease_reach (sys_abs s)"
proof -
  have "\<exists>s. exec_actions True ''job'' 10 sys_tokens [Start 1, SetKey 1, Acquire 1] (sys_init 0) = Some s
            \<and> active s 1"
    by (simp add: sys_init_def live_def acq_until_def active_def go_simps time_Sub_def sat_int64_def)
  then obtain s where ex: "exec_actions True ''job'' 10 sys_tokens [Start 1, SetKey 1, Acquire 1] (sys_init 0) = Some s"
      and a: "active s 1"
    by blast
  have r: "reach (sys_step True ''job'' 10 sys_tokens) s"
    using exec_actions_reach [OF reach.init ex] .
  have t: "0 \<le> sint (10 :: duration)" by simp
  have "lease_reach (sys_abs s)"
    by (rule sys_refines_lease [where atomic = True, OF r _ t sys_tokens_inj]) simp
  with r a t sys_tokens_inj show ?thesis by auto
qed

end
